theory Spec2Isabelle
  imports Complex_Main "HOL-Library.Multiset"
begin

section \<open>Data model of brainmap.js\<close>

text \<open>
  The widget is the class \<open>MindMap\<close> of \<^verbatim>\<open>src/brainmap.js\<close>. JavaScript numbers are
  modelled as mathematical reals (\<open>Math.cos\<close>, \<open>Math.sin\<close>, \<open>Math.sqrt\<close>, \<open>Math.PI\<close> as
  \<open>cos\<close>, \<open>sin\<close>, \<open>sqrt\<close>, \<open>pi\<close>); IEEE rounding is not modelled. Where the JavaScript
  would produce a non-finite number (a division by zero, arithmetic on \<open>undefined\<close>) or throw
  a \<open>TypeError\<close>, the model returns a \<open>fault\<close> instead of a state.
\<close>

datatype fault = NonFinite | TypeError

text \<open>
  The layout-only fields that \<open>countLeaves\<close>, \<open>layout\<close> and \<open>layoutRoot\<close> write on a node
  object: \<open>_leafCount\<close>, \<open>_isLeaf\<close>, \<open>_isRoot\<close>, \<open>_depth\<close>, \<open>_angle\<close>, \<open>_x\<close>, \<open>_y\<close>
  (an identifier cannot start with an underscore, hence the prefix \<open>u_\<close>). \<open>None\<close> is a
  field that the object does not have.
\<close>

record transient =
  u_leafCount :: "nat option"
  u_isLeaf :: "bool option"
  u_isRoot :: "bool option"
  u_depth :: "nat option"
  u_angle :: "real option"
  u_x :: "real option"
  u_y :: "real option"

text \<open>
  A node object \<open>{id, name, children?}\<close> with its layout fields. \<open>children = None\<close> is an
  absent \<open>children\<close> property, \<open>Some []\<close> an empty array. The live tree is the result of
  \<open>JSON.parse\<close>, so no two nodes are the same object and a node is identified by its
  position in the tree.
\<close>

datatype node = Node (nid: string) (name: string) (children: "node list option") (tr: transient)

definition noTransient :: transient where
  "noTransient = \<lparr>u_leafCount = None, u_isLeaf = None, u_isRoot = None, u_depth = None,
     u_angle = None, u_x = None, u_y = None\<rparr>"

record mindMapConfig =
  width :: real
  height :: real
  radiusStep :: real
  editable :: bool

section \<open>Leaf-count annotator\<close>

text \<open>
  \<open>countLeaves(node)\<close>: returns the number of leaves and writes \<open>_leafCount\<close> and \<open>_isLeaf\<close>
  on every node of the subtree. \<open>countLeavesLoop\<close> is the \<open>for (const c of node.children)\<close>
  loop with its accumulator \<open>sum\<close>.
\<close>

fun countLeaves :: "node \<Rightarrow> node \<times> nat"
  and countLeavesLoop :: "node list \<Rightarrow> nat \<Rightarrow> node list \<times> nat" where
  "countLeaves (Node i nm ch t) =
     (case ch of
        None \<Rightarrow> (Node i nm ch (t\<lparr>u_leafCount := Some 1, u_isLeaf := Some True\<rparr>), 1)
      | Some cs \<Rightarrow>
          if cs = [] then (Node i nm ch (t\<lparr>u_leafCount := Some 1, u_isLeaf := Some True\<rparr>), 1)
          else (case countLeavesLoop cs 0 of
                  (cs', sm) \<Rightarrow>
                    (Node i nm (Some cs') (t\<lparr>u_isLeaf := Some False, u_leafCount := Some sm\<rparr>),
                     sm)))"
| "countLeavesLoop [] acc = ([], acc)"
| "countLeavesLoop (c # cs) acc =
     (case countLeaves c of
        (c', k) \<Rightarrow> (case countLeavesLoop cs (acc + k) of (cs', sm) \<Rightarrow> (c' # cs', sm)))"

section \<open>Radial layout\<close>

text \<open>
  \<open>c._leafCount / node._leafCount\<close>: not a finite number when one of the two fields is
  missing or the divisor is zero.
\<close>

definition leafRatio :: "nat option \<Rightarrow> nat option \<Rightarrow> fault + real" where
  "leafRatio c p =
     (case (c, p) of
        (Some k, Some n) \<Rightarrow> if n = 0 then Inl NonFinite else Inr (real k / real n)
      | _ \<Rightarrow> Inl NonFinite)"

text \<open>
  \<open>layout(node, startAngle, endAngle, depth)\<close>. \<open>layoutLoop\<close> is the loop over the children
  with its running \<open>angle\<close>; \<open>layoutRoot\<close> has the same loop, with the child depth \<open>1\<close>, so
  the loop takes the parent's interval, the parent's \<open>_leafCount\<close> and the depth it passes
  on.
\<close>

fun layout :: "mindMapConfig \<Rightarrow> node \<Rightarrow> real \<Rightarrow> real \<Rightarrow> nat \<Rightarrow> fault + node"
  and layoutLoop ::
    "mindMapConfig \<Rightarrow> node list \<Rightarrow> real \<Rightarrow> real \<Rightarrow> nat option \<Rightarrow> real \<Rightarrow> nat \<Rightarrow> fault + node list" where
  "layout cfg (Node i nm ch t) startAngle endAngle depth =
     (let mid = (startAngle + endAngle) / 2;
          r = real depth * radiusStep cfg;
          centerX = width cfg / 2;
          centerY = height cfg / 2;
          t' = t\<lparr>u_x := Some (centerX + r * cos mid), u_y := Some (centerY + r * sin mid),
                 u_angle := Some mid, u_depth := Some depth\<rparr>
      in case ch of
           None \<Rightarrow> Inr (Node i nm ch t')
         | Some cs \<Rightarrow>
             if cs = [] then Inr (Node i nm ch t')
             else (case layoutLoop cfg cs startAngle endAngle (u_leafCount t) startAngle (depth + 1) of
                     Inl f \<Rightarrow> Inl f
                   | Inr cs' \<Rightarrow> Inr (Node i nm (Some cs') t')))"
| "layoutLoop cfg [] startAngle endAngle pl angle d = Inr []"
| "layoutLoop cfg (c # cs) startAngle endAngle pl angle d =
     (case leafRatio (u_leafCount (tr c)) pl of
        Inl f \<Rightarrow> Inl f
      | Inr q \<Rightarrow>
          (let span = (endAngle - startAngle) * q
           in (case layout cfg c angle (angle + span) d of
                 Inl f \<Rightarrow> Inl f
               | Inr c' \<Rightarrow>
                   (case layoutLoop cfg cs startAngle endAngle pl (angle + span) d of
                      Inl f \<Rightarrow> Inl f
                    | Inr cs' \<Rightarrow> Inr (c' # cs')))))"

definition gap :: real where
  "gap = 1 / 10000"

definition rootStart :: real where
  "rootStart = - pi / 2 + gap"

definition rootEnd :: real where
  "rootEnd = - pi / 2 + pi * 2 - gap"

text \<open>\<open>layoutRoot(root)\<close>; an absent \<open>children\<close> returns early, an empty array runs no iteration.\<close>

definition layoutRoot :: "mindMapConfig \<Rightarrow> node \<Rightarrow> fault + node" where
  "layoutRoot cfg rt =
     (let centerX = width cfg / 2;
          centerY = height cfg / 2;
          t' = (tr rt)\<lparr>u_x := Some centerX, u_y := Some centerY, u_angle := Some 0,
                 u_depth := Some 0, u_isRoot := Some True\<rparr>
      in case children rt of
           None \<Rightarrow> Inr (Node (nid rt) (name rt) None t')
         | Some cs \<Rightarrow>
             (case layoutLoop cfg cs rootStart rootEnd (u_leafCount (tr rt)) rootStart 1 of
                Inl f \<Rightarrow> Inl f
              | Inr cs' \<Rightarrow> Inr (Node (nid rt) (name rt) (Some cs') t')))"


section \<open>Widget state\<close>

text \<open>\<open>svg.getBoundingClientRect()\<close>, read by the handlers from the browser.\<close>

record rect =
  r_left :: real
  r_top :: real
  r_width :: real
  r_height :: real

text \<open>The \<open>clientX\<close>, \<open>clientY\<close> of a \<open>MouseEvent\<close> or of one \<open>Touch\<close>.\<close>

record pointer =
  clientX :: real
  clientY :: real

text \<open>
  A \<open>TouchEvent\<close>: \<open>e.touches\<close>, and whether \<open>e.target.closest('.mindmap-node')\<close> finds a
  node element.
\<close>

record touchEvent =
  touches :: "pointer list"
  onNode :: bool

text \<open>\<open>this.dragStart = { x, y, ox, oy }\<close> and \<open>this.touchStart = { x, y, ox, oy, zoom?, svgX?, svgY? }\<close>.\<close>

record dragState =
  ds_x :: real
  ds_y :: real
  ds_ox :: real
  ds_oy :: real

record touchState =
  ts_x :: real
  ts_y :: real
  ts_ox :: real
  ts_oy :: real
  ts_zoom :: "real option"
  ts_svgX :: "real option"
  ts_svgY :: "real option"

text \<open>
  The fields of a \<open>MindMap\<close> instance. \<open>treeData\<close> is the live tree (the constructor sets it
  through \<open>setData\<close>); \<open>statusEl\<close> is the text of the status element, \<open>None\<close> when the widget
  has none (\<open>showStatus: false\<close>). The counter is a natural number: the loss of precision
  of \<open>++\<close> above \<open>2^53\<close> is not modelled.
\<close>

record mindMap =
  config :: mindMapConfig
  treeData :: node
  zoom :: real
  offsetX :: real
  offsetY :: real
  isDragging :: bool
  dragStart :: "dragState option"
  isEditing :: bool
  editingNode :: "string option"
  nodeIdCounter :: nat
  isTouching :: bool
  touchStart :: "touchState option"
  lastTouchDistance :: "real option"
  lastTouchCenter :: "(real \<times> real) option"
  statusEl :: "string option"

text \<open>
  \<open>setStatus(message)\<close>; the timer that restores the hint after three seconds is not
  modelled.
\<close>

definition setStatus :: "mindMap \<Rightarrow> string \<Rightarrow> mindMap" where
  "setStatus s message = (case statusEl s of None \<Rightarrow> s | Some _ \<Rightarrow> s\<lparr>statusEl := Some message\<rparr>)"

section \<open>Identifiers\<close>

text \<open>The decimal digits of a number, as \<open>'node_' + n\<close> converts it.\<close>

fun numToString :: "nat \<Rightarrow> string" where
  "numToString n =
     (if n < 10 then [char_of (48 + n)]
      else numToString (n div 10) @ [char_of (48 + n mod 10)])"

declare numToString.simps [simp del]

text \<open>\<open>generateId()\<close>: \<open>'node_' + (++this.nodeIdCounter)\<close>.\<close>

definition generateId :: "mindMap \<Rightarrow> string \<times> mindMap" where
  "generateId s =
     (''node_'' @ numToString (nodeIdCounter s + 1), s\<lparr>nodeIdCounter := nodeIdCounter s + 1\<rparr>)"

section \<open>Viewport\<close>

text \<open>
  \<open>screenToSvg(screenX, screenY)\<close>. A bounding box without width or height makes the
  quotient non-finite.
\<close>

definition screenToSvg :: "mindMapConfig \<Rightarrow> rect \<Rightarrow> real \<Rightarrow> real \<Rightarrow> fault + real \<times> real" where
  "screenToSvg cfg r screenX screenY =
     (if r_width r = 0 \<or> r_height r = 0 then Inl NonFinite
      else Inr ((screenX - r_left r) / r_width r * width cfg,
                (screenY - r_top r) / r_height r * height cfg))"

text \<open>
  \<open>updateTransform()\<close> writes \<open>translate(offsetX,offsetY) scale(zoom)\<close> on the viewport
  group: the point of the diagram at \<open>(px, py)\<close> is drawn at this point of the SVG canvas.
\<close>

definition viewportTransform :: "mindMap \<Rightarrow> real \<times> real \<Rightarrow> real \<times> real" where
  "viewportTransform s p = (offsetX s + zoom s * fst p, offsetY s + zoom s * snd p)"

text \<open>\<open>handleWheel(e)\<close>, with \<open>e.deltaY\<close> and the bounding box of the SVG element.\<close>

definition handleWheel :: "mindMap \<Rightarrow> rect \<Rightarrow> real \<Rightarrow> fault + mindMap" where
  "handleWheel s r deltaY =
     (if isEditing s then Inr s
      else
        let scaleFactor = (if deltaY > 0 then 9 / 10 else 11 / 10);
            newZoom = zoom s * scaleFactor
        in case screenToSvg (config s) r (r_left r + r_width r / 2) (r_top r + r_height r / 2) of
             Inl f \<Rightarrow> Inl f
           | Inr centerPoint \<Rightarrow>
               if zoom s = 0 then Inl NonFinite
               else
                 let fixedX = (fst centerPoint - offsetX s) / zoom s;
                     fixedY = (snd centerPoint - offsetY s) / zoom s
                 in Inr (s\<lparr>zoom := newZoom,
                           offsetX := fst centerPoint - fixedX * newZoom,
                           offsetY := snd centerPoint - fixedY * newZoom\<rparr>))"

definition handleMouseDown :: "mindMap \<Rightarrow> pointer \<Rightarrow> mindMap" where
  "handleMouseDown s e =
     (if isEditing s then s
      else s\<lparr>isDragging := True,
             dragStart := Some \<lparr>ds_x = clientX e, ds_y = clientY e, ds_ox = offsetX s, ds_oy = offsetY s\<rparr>\<rparr>)"

text \<open>\<open>handleMouseMove(e)\<close>; reading \<open>this.dragStart.ox\<close> of a \<open>null\<close> throws.\<close>

definition handleMouseMove :: "mindMap \<Rightarrow> pointer \<Rightarrow> fault + mindMap" where
  "handleMouseMove s e =
     (if \<not> isDragging s \<or> isEditing s then Inr s
      else case dragStart s of
             None \<Rightarrow> Inl TypeError
           | Some ds \<Rightarrow>
               Inr (s\<lparr>offsetX := ds_ox ds + (clientX e - ds_x ds),
                       offsetY := ds_oy ds + (clientY e - ds_y ds)\<rparr>))"

definition handleMouseUp :: "mindMap \<Rightarrow> mindMap" where
  "handleMouseUp s = s\<lparr>isDragging := False\<rparr>"

definition handleMouseLeave :: "mindMap \<Rightarrow> mindMap" where
  "handleMouseLeave s = s\<lparr>isDragging := False\<rparr>"

text \<open>\<open>getTouchDistance(touches)\<close> and \<open>getTouchCenter(touches)\<close> of \<open>touches[0]\<close>, \<open>touches[1]\<close>.\<close>

definition getTouchDistance :: "pointer \<Rightarrow> pointer \<Rightarrow> real" where
  "getTouchDistance t0 t1 =
     (let dx = clientX t0 - clientX t1; dy = clientY t0 - clientY t1
      in sqrt (dx * dx + dy * dy))"

definition getTouchCenter :: "pointer \<Rightarrow> pointer \<Rightarrow> real \<times> real" where
  "getTouchCenter t0 t1 = ((clientX t0 + clientX t1) / 2, (clientY t0 + clientY t1) / 2)"

definition handleTouchStart :: "mindMap \<Rightarrow> rect \<Rightarrow> touchEvent \<Rightarrow> fault + mindMap" where
  "handleTouchStart s r e =
     (if isEditing s then Inr s
      else if onNode e then Inr s
      else
        let s1 = s\<lparr>isTouching := True\<rparr>
        in case touches e of
             [t0] \<Rightarrow>
               Inr (s1\<lparr>isDragging := True,
                        touchStart := Some \<lparr>ts_x = clientX t0, ts_y = clientY t0,
                          ts_ox = offsetX s, ts_oy = offsetY s,
                          ts_zoom = None, ts_svgX = None, ts_svgY = None\<rparr>\<rparr>)
           | [t0, t1] \<Rightarrow>
               (let d = getTouchDistance t0 t1; c = getTouchCenter t0 t1
                in case screenToSvg (config s) r (fst c) (snd c) of
                     Inl f \<Rightarrow> Inl f
                   | Inr svgCenter \<Rightarrow>
                       Inr (s1\<lparr>isDragging := False,
                                lastTouchDistance := Some d,
                                lastTouchCenter := Some c,
                                touchStart := Some \<lparr>ts_x = fst c, ts_y = snd c,
                                  ts_ox = offsetX s, ts_oy = offsetY s,
                                  ts_zoom = Some (zoom s),
                                  ts_svgX = Some (fst svgCenter), ts_svgY = Some (snd svgCenter)\<rparr>\<rparr>))
           | _ \<Rightarrow> Inr s1)"

text \<open>
  The pinch branch of \<open>handleTouchMove\<close>, entered with a \<open>lastTouchDistance\<close> that is
  truthy (not \<open>null\<close>, not \<open>0\<close>) and a \<open>touchStart\<close>. A \<open>touchStart\<close> without \<open>zoom\<close> or
  \<open>svgX\<close>, or with the zoom \<open>0\<close>, makes the arithmetic non-finite; a \<open>null\<close>
  \<open>lastTouchCenter\<close> throws.
\<close>

definition pinch ::
  "mindMap \<Rightarrow> rect \<Rightarrow> pointer \<Rightarrow> pointer \<Rightarrow> real \<Rightarrow> touchState \<Rightarrow> fault + mindMap" where
  "pinch s r t0 t1 lastDistance ts =
     (let currentDistance = getTouchDistance t0 t1;
          currentCenter = getTouchCenter t0 t1;
          scaleFactor = currentDistance / lastDistance
      in case lastTouchCenter s of
           None \<Rightarrow> Inl TypeError
         | Some lastCenter \<Rightarrow>
             (case (ts_zoom ts, ts_svgX ts, ts_svgY ts) of
                (Some z, Some svgX, Some svgY) \<Rightarrow>
                  if z = 0 then Inl NonFinite
                  else
                    let newZoom = max (1 / 10) (min 5 (z * scaleFactor));
                        fixedX = (svgX - ts_ox ts) / z;
                        fixedY = (svgY - ts_oy ts) / z;
                        centerDx = fst currentCenter - fst lastCenter;
                        centerDy = snd currentCenter - snd lastCenter
                    in (case screenToSvg (config s) r (fst currentCenter) (snd currentCenter) of
                          Inl f \<Rightarrow> Inl f
                        | Inr svgCenter \<Rightarrow>
                            Inr (s\<lparr>zoom := newZoom,
                                    offsetX := fst svgCenter - fixedX * newZoom + centerDx,
                                    offsetY := snd svgCenter - fixedY * newZoom + centerDy\<rparr>))
              | _ \<Rightarrow> Inl NonFinite))"

definition handleTouchMove :: "mindMap \<Rightarrow> rect \<Rightarrow> touchEvent \<Rightarrow> fault + mindMap" where
  "handleTouchMove s r e =
     (if \<not> isTouching s \<or> isEditing s then Inr s
      else if onNode e then Inr s
      else case touches e of
             [t0] \<Rightarrow>
               (case touchStart s of
                  Some ts \<Rightarrow>
                    if isDragging s
                    then Inr (s\<lparr>offsetX := ts_ox ts + (clientX t0 - ts_x ts),
                                 offsetY := ts_oy ts + (clientY t0 - ts_y ts)\<rparr>)
                    else Inr s
                | None \<Rightarrow> Inr s)
           | [t0, t1] \<Rightarrow>
               (case (lastTouchDistance s, touchStart s) of
                  (Some lastDistance, Some ts) \<Rightarrow>
                    if lastDistance = 0 then Inr s else pinch s r t0 t1 lastDistance ts
                | _ \<Rightarrow> Inr s)
           | _ \<Rightarrow> Inr s)"

definition handleTouchEnd :: "mindMap \<Rightarrow> touchEvent \<Rightarrow> mindMap" where
  "handleTouchEnd s e =
     (if \<not> isTouching s then s
      else if onNode e then s
      else case touches e of
             [] \<Rightarrow>
               s\<lparr>isTouching := False, isDragging := False, touchStart := None,
                 lastTouchDistance := None, lastTouchCenter := None\<rparr>
           | [t0] \<Rightarrow>
               (case lastTouchDistance s of
                  None \<Rightarrow> s
                | Some d \<Rightarrow>
                    if d = 0 then s
                    else s\<lparr>lastTouchDistance := None, lastTouchCenter := None, isDragging := True,
                           touchStart := Some \<lparr>ts_x = clientX t0, ts_y = clientY t0,
                             ts_ox = offsetX s, ts_oy = offsetY s,
                             ts_zoom = None, ts_svgX = None, ts_svgY = None\<rparr>\<rparr>)
           | _ \<Rightarrow> s)"

definition resetView :: "mindMap \<Rightarrow> mindMap" where
  "resetView s = setStatus (s\<lparr>offsetX := 0, offsetY := 0, zoom := 1\<rparr>) ''View reset to center''"

text \<open>The input events of the viewport, and a run of them from a state.\<close>

datatype gesture =
    Wheel rect real
  | MouseDown pointer
  | MouseMove pointer
  | MouseUp
  | MouseLeave
  | TouchStart rect touchEvent
  | TouchMove rect touchEvent
  | TouchEnd touchEvent

fun handleGesture :: "mindMap \<Rightarrow> gesture \<Rightarrow> fault + mindMap" where
  "handleGesture s (Wheel r deltaY) = handleWheel s r deltaY"
| "handleGesture s (MouseDown e) = Inr (handleMouseDown s e)"
| "handleGesture s (MouseMove e) = handleMouseMove s e"
| "handleGesture s MouseUp = Inr (handleMouseUp s)"
| "handleGesture s MouseLeave = Inr (handleMouseLeave s)"
| "handleGesture s (TouchStart r e) = handleTouchStart s r e"
| "handleGesture s (TouchMove r e) = handleTouchMove s r e"
| "handleGesture s (TouchEnd e) = Inr (handleTouchEnd s e)"

fun runGestures :: "mindMap \<Rightarrow> gesture list \<Rightarrow> fault + mindMap" where
  "runGestures s [] = Inr s"
| "runGestures s (g # gs) =
     (case handleGesture s g of Inl f \<Rightarrow> Inl f | Inr s' \<Rightarrow> runGestures s' gs)"


section \<open>Tree model\<close>

text \<open>\<open>findNodeById(tree, id)\<close>: depth first, the node itself before its children.\<close>

fun findNodeById :: "node \<Rightarrow> string \<Rightarrow> node option"
  and findNodeLoop :: "node list \<Rightarrow> string \<Rightarrow> node option" where
  "findNodeById (Node i nm ch t) k =
     (if i = k then Some (Node i nm ch t)
      else case ch of None \<Rightarrow> None | Some cs \<Rightarrow> findNodeLoop cs k)"
| "findNodeLoop [] k = None"
| "findNodeLoop (c # cs) k =
     (case findNodeById c k of Some found \<Rightarrow> Some found | None \<Rightarrow> findNodeLoop cs k)"

text \<open>
  \<open>findParentById(tree, childId)\<close>: for each child in turn, the tree itself when the child
  has the id, else what the search in the child finds.
\<close>

fun findParentById :: "node \<Rightarrow> string \<Rightarrow> node option"
  and findParentLoop :: "node \<Rightarrow> node list \<Rightarrow> string \<Rightarrow> node option" where
  "findParentById (Node i nm ch t) k =
     (case ch of None \<Rightarrow> None | Some cs \<Rightarrow> findParentLoop (Node i nm ch t) cs k)"
| "findParentLoop p [] k = None"
| "findParentLoop p (c # cs) k =
     (if nid c = k then Some p
      else case findParentById c k of Some found \<Rightarrow> Some found | None \<Rightarrow> findParentLoop p cs k)"

text \<open>
  The operations mutate the object that a search returns. The tree has no shared nodes, so
  the mutation is the update of the tree at the place where the search finds the object:
  \<open>updateNodeById f\<close> applies \<open>f\<close> to the node that \<open>findNodeById\<close> returns,
  \<open>updateParentById f\<close> to the node that \<open>findParentById\<close> returns. Both leave the tree
  as it is when the search finds nothing.
\<close>

fun updateNodeById :: "(node \<Rightarrow> node) \<Rightarrow> node \<Rightarrow> string \<Rightarrow> node"
  and updateNodeLoop :: "(node \<Rightarrow> node) \<Rightarrow> node list \<Rightarrow> string \<Rightarrow> node list" where
  "updateNodeById f (Node i nm ch t) k =
     (if i = k then f (Node i nm ch t)
      else case ch of
             None \<Rightarrow> Node i nm ch t
           | Some cs \<Rightarrow> Node i nm (Some (updateNodeLoop f cs k)) t)"
| "updateNodeLoop f [] k = []"
| "updateNodeLoop f (c # cs) k =
     (case findNodeById c k of
        Some found \<Rightarrow> updateNodeById f c k # cs
      | None \<Rightarrow> c # updateNodeLoop f cs k)"

text \<open>
  The loop of \<open>updateParentById\<close> returns \<open>True\<close> when the loop of \<open>findParentById\<close>
  returns the tree itself, else the children with the update made below them.
\<close>

fun updateParentById :: "(node \<Rightarrow> node) \<Rightarrow> node \<Rightarrow> string \<Rightarrow> node"
  and updateParentLoop :: "(node \<Rightarrow> node) \<Rightarrow> node list \<Rightarrow> string \<Rightarrow> bool \<times> node list" where
  "updateParentById f (Node i nm ch t) k =
     (case ch of
        None \<Rightarrow> Node i nm ch t
      | Some cs \<Rightarrow>
          (case updateParentLoop f cs k of
             (True, cs') \<Rightarrow> f (Node i nm ch t)
           | (False, cs') \<Rightarrow> Node i nm (Some cs') t))"
| "updateParentLoop f [] k = (False, [])"
| "updateParentLoop f (c # cs) k =
     (if nid c = k then (True, c # cs)
      else case findParentById c k of
             Some found \<Rightarrow> (False, updateParentById f c k # cs)
           | None \<Rightarrow> (case updateParentLoop f cs k of (b, cs') \<Rightarrow> (b, c # cs')))"

text \<open>\<open>name || fallback\<close>, for a \<open>name\<close> that is a string or \<open>undefined\<close>.\<close>

definition orDefault :: "string option \<Rightarrow> string \<Rightarrow> string" where
  "orDefault nm fallback = (case nm of None \<Rightarrow> fallback | Some v \<Rightarrow> if v = [] then fallback else v)"

text \<open>\<open>if (!parent.children) parent.children = []; parent.children.push(newNode)\<close>.\<close>

definition pushChild :: "node \<Rightarrow> node \<Rightarrow> node" where
  "pushChild newNode p =
     Node (nid p) (name p)
       (Some ((case children p of None \<Rightarrow> [] | Some cs \<Rightarrow> cs) @ [newNode])) (tr p)"

text \<open>\<open>children.findIndex(c => c.id === nodeId)\<close>; \<open>None\<close> is the result \<open>-1\<close>.\<close>

fun findIndexById :: "node list \<Rightarrow> string \<Rightarrow> nat option" where
  "findIndexById [] k = None"
| "findIndexById (c # cs) k =
     (if nid c = k then Some 0 else map_option Suc (findIndexById cs k))"

text \<open>
  \<open>parent.children.splice(siblingIndex + 1, 0, newNode)\<close>; with the index \<open>-1\<close> the new
  node goes to the front.
\<close>

definition insertSibling :: "string \<Rightarrow> node \<Rightarrow> node \<Rightarrow> node" where
  "insertSibling k newNode p =
     (let cs = (case children p of None \<Rightarrow> [] | Some cs \<Rightarrow> cs);
          start = (case findIndexById cs k of None \<Rightarrow> 0 | Some siblingIndex \<Rightarrow> siblingIndex + 1)
      in Node (nid p) (name p) (Some (take start cs @ [newNode] @ drop start cs)) (tr p))"

text \<open>\<open>parent.children.splice(nodeIndex, 1)\<close>, for an index that \<open>findIndex\<close> found.\<close>

definition removeChild :: "nat \<Rightarrow> node \<Rightarrow> node" where
  "removeChild nodeIndex p =
     (let cs = (case children p of None \<Rightarrow> [] | Some cs \<Rightarrow> cs)
      in Node (nid p) (name p) (Some (take nodeIndex cs @ drop (Suc nodeIndex) cs)) (tr p))"

definition setName :: "string \<Rightarrow> node \<Rightarrow> node" where
  "setName nm p = Node (nid p) nm (children p) (tr p)"

text \<open>
  \<open>render()\<close>: \<open>countLeaves\<close>, then \<open>layoutRoot\<close>, on the live tree. Drawing and
  \<open>updateTransform\<close> write to the document only.
\<close>

definition render :: "mindMap \<Rightarrow> fault + mindMap" where
  "render s =
     (case layoutRoot (config s) (fst (countLeaves (treeData s))) of
        Inl f \<Rightarrow> Inl f
      | Inr t \<Rightarrow> Inr (s\<lparr>treeData := t\<rparr>))"

text \<open>
  \<open>JSON.parse(JSON.stringify(n))\<close> of a node: a new tree with the same fields (every field
  of the model is a string, a finite number, a boolean or an array of nodes).
\<close>

fun jsonClone :: "node \<Rightarrow> node" where
  "jsonClone (Node i nm ch t) = Node i nm (map_option (map jsonClone) ch) t"

definition setData :: "mindMap \<Rightarrow> node \<Rightarrow> fault + mindMap" where
  "setData s dat =
     (case render (s\<lparr>treeData := jsonClone dat\<rparr>) of
        Inl f \<Rightarrow> Inl f
      | Inr s' \<Rightarrow> Inr (setStatus s' ''Data loaded successfully''))"

definition getData :: "mindMap \<Rightarrow> node" where
  "getData s = jsonClone (treeData s)"

text \<open>A string between double quotes, as the status messages show a name.\<close>

definition quoted :: "string \<Rightarrow> string" where
  "quoted str = CHR 0x22 # str @ [CHR 0x22]"

definition addChild :: "mindMap \<Rightarrow> string \<Rightarrow> string option \<Rightarrow> fault + bool \<times> mindMap" where
  "addChild s parentId nm =
     (if \<not> editable (config s) then Inr (False, s)
      else case findNodeById (treeData s) parentId of
             None \<Rightarrow> Inr (False, s)
           | Some parent \<Rightarrow>
               (case generateId s of
                  (newId, s1) \<Rightarrow>
                    (let newNode = Node newId (orDefault nm ''New Node'') None noTransient;
                         s2 = s1\<lparr>treeData := updateNodeById (pushChild newNode) (treeData s1) parentId\<rparr>
                     in case render s2 of
                          Inl f \<Rightarrow> Inl f
                        | Inr s3 \<Rightarrow>
                            Inr (True,
                                 setStatus s3
                                   (''Added child '' @ quoted (orDefault nm ''New Node'') @ '' to ''
                                      @ quoted (name parent))))))"

definition addSibling :: "mindMap \<Rightarrow> string \<Rightarrow> string option \<Rightarrow> fault + bool \<times> mindMap" where
  "addSibling s nodeId nm =
     (if \<not> editable (config s) then Inr (False, s)
      else case findParentById (treeData s) nodeId of
             None \<Rightarrow> Inr (False, s)
           | Some parent \<Rightarrow>
               (case generateId s of
                  (newId, s1) \<Rightarrow>
                    (let newNode = Node newId (orDefault nm ''New Node'') None noTransient;
                         s2 = s1\<lparr>treeData :=
                                updateParentById (insertSibling nodeId newNode) (treeData s1) nodeId\<rparr>
                     in case render s2 of
                          Inl f \<Rightarrow> Inl f
                        | Inr s3 \<Rightarrow>
                            Inr (True,
                                 setStatus s3 (''Added sibling '' @ quoted (orDefault nm ''New Node''))))))"

text \<open>
  \<open>deleteNode(nodeId)\<close>. \<open>parent.children[nodeIndex].name\<close> throws for the index \<open>-1\<close>.
\<close>

definition deleteNode :: "mindMap \<Rightarrow> string \<Rightarrow> fault + bool \<times> mindMap" where
  "deleteNode s nodeId =
     (if \<not> editable (config s) then Inr (False, s)
      else if nodeId = nid (treeData s) then Inr (False, setStatus s ''Cannot delete root node'')
      else case findParentById (treeData s) nodeId of
             None \<Rightarrow> Inr (False, s)
           | Some parent \<Rightarrow>
               (let cs = (case children parent of None \<Rightarrow> [] | Some cs \<Rightarrow> cs)
                in case findIndexById cs nodeId of
                     None \<Rightarrow> Inl TypeError
                   | Some nodeIndex \<Rightarrow>
                       (let nodeName = name (cs ! nodeIndex);
                            s1 = s\<lparr>treeData := updateParentById (removeChild nodeIndex) (treeData s) nodeId\<rparr>
                        in case render s1 of
                             Inl f \<Rightarrow> Inl f
                           | Inr s2 \<Rightarrow> Inr (True, setStatus s2 (''Deleted '' @ quoted nodeName)))))"

text \<open>\<open>renameNode(nodeId, newName)\<close>: \<open>node.name = newName || 'Unnamed'\<close>.\<close>

definition renameNode :: "mindMap \<Rightarrow> string \<Rightarrow> string \<Rightarrow> fault + bool \<times> mindMap" where
  "renameNode s nodeId newName =
     (if \<not> editable (config s) then Inr (False, s)
      else case findNodeById (treeData s) nodeId of
             None \<Rightarrow> Inr (False, s)
           | Some found \<Rightarrow>
               (let oldName = name found;
                    newName' = orDefault (Some newName) ''Unnamed'';
                    s1 = s\<lparr>treeData := updateNodeById (setName newName') (treeData s) nodeId\<rparr>
                in case render s1 of
                     Inl f \<Rightarrow> Inl f
                   | Inr s2 \<Rightarrow>
                       Inr (True,
                            setStatus s2
                              (''Renamed '' @ quoted oldName @ '' to '' @ quoted newName'))))"

text \<open>
  The constructor: the initial fields, then \<open>init()\<close>, which loads the default tree with
  \<open>setData\<close>. \<open>now\<close> is \<open>Date.now()\<close>; \<open>status\<close> is the status element that \<open>setupDOM\<close>
  creates (\<open>None\<close> with \<open>showStatus: false\<close>). The field \<open>treeData\<close> is \<open>null\<close> until
  \<open>setData\<close> overwrites it, without reading it; the record holds an empty node there.
\<close>

definition leafNode :: "string \<Rightarrow> string \<Rightarrow> node" where
  "leafNode i nm = Node i nm None noTransient"

definition defaultData :: node where
  "defaultData =
     Node ''root'' ''My Mind Map''
       (Some [Node ''node1'' ''Idea 1'' (Some [leafNode ''node1-1'' ''Detail A'']) noTransient,
              leafNode ''node2'' ''Idea 2'',
              Node ''node3'' ''Idea 3''
                (Some [leafNode ''node3-1'' ''Detail B'', leafNode ''node3-2'' ''Detail C''])
                noTransient])
       noTransient"

definition construct :: "mindMapConfig \<Rightarrow> nat \<Rightarrow> string option \<Rightarrow> fault + mindMap" where
  "construct cfg now status =
     setData
       \<lparr>config = cfg, treeData = leafNode [] [], zoom = 1, offsetX = 0, offsetY = 0,
        isDragging = False, dragStart = None, isEditing = False, editingNode = None,
        nodeIdCounter = now, isTouching = False, touchStart = None,
        lastTouchDistance = None, lastTouchCenter = None, statusEl = status\<rparr>
       defaultData"

definition defaultConfig :: mindMapConfig where
  "defaultConfig = \<lparr>width = 800, height = 800, radiusStep = 120, editable = True\<rparr>"


section \<open>Notions of the specification\<close>

text \<open>The \<open>_leafCount\<close> that a node carries (\<open>0\<close> when it carries none).\<close>

definition leafNum :: "node \<Rightarrow> nat" where
  "leafNum n = (case u_leafCount (tr n) of None \<Rightarrow> 0 | Some k \<Rightarrow> k)"


text \<open>The leaf-count invariant: a childless node counts \<open>1\<close>, another node the sum of its children.\<close>

fun leafOK :: "node \<Rightarrow> bool" where
  "leafOK (Node i nm ch t) =
     (case ch of
        None \<Rightarrow> u_leafCount t = Some 1
      | Some cs \<Rightarrow>
          if cs = [] then u_leafCount t = Some 1
          else (\<forall>c \<in> set cs. leafOK c) \<and> u_leafCount t = Some (sum_list (map leafNum cs)))"

text \<open>
  The angular intervals that the loop of \<open>layout\<close> (and of \<open>layoutRoot\<close>) passes to the
  calls of \<open>layout\<close> on the children: \<open>(angle, angle + span)\<close> for each child in turn.
\<close>

fun sectors :: "node list \<Rightarrow> real \<Rightarrow> real \<Rightarrow> nat option \<Rightarrow> real \<Rightarrow> fault + (real \<times> real) list" where
  "sectors [] startAngle endAngle pl angle = Inr []"
| "sectors (c # cs) startAngle endAngle pl angle =
     (case leafRatio (u_leafCount (tr c)) pl of
        Inl f \<Rightarrow> Inl f
      | Inr q \<Rightarrow>
          (let span = (endAngle - startAngle) * q
           in (case sectors cs startAngle endAngle pl (angle + span) of
                 Inl f \<Rightarrow> Inl f
               | Inr ivs \<Rightarrow> Inr ((angle, angle + span) # ivs))))"



text \<open>
  The layout pass on the tree \<open>rt\<close>, node by node: \<open>assigned cfg rt n s e d n'\<close> when the
  pass gives the node \<open>n\<close> of \<open>rt\<close> the interval from \<open>s\<close> to \<open>e\<close> at the depth \<open>d\<close> and
  \<open>n'\<close> is that node in the laid-out tree. The root has the interval of \<open>layoutRoot\<close> and
  the depth \<open>0\<close>; a child of an assigned node has its interval of \<open>sectors\<close>, one level
  deeper.
\<close>

inductive assigned :: "mindMapConfig \<Rightarrow> node \<Rightarrow> node \<Rightarrow> real \<Rightarrow> real \<Rightarrow> nat \<Rightarrow> node \<Rightarrow> bool"
  for cfg :: mindMapConfig and rt :: node where
  root: "layoutRoot cfg rt = Inr rt' \<Longrightarrow> assigned cfg rt rt rootStart rootEnd 0 rt'"
| child:
    "assigned cfg rt n s e d n' \<Longrightarrow> children n = Some cs \<Longrightarrow> children n' = Some cs' \<Longrightarrow>
     sectors cs s e (u_leafCount (tr n)) s = Inr ivs \<Longrightarrow> i < length cs \<Longrightarrow>
     assigned cfg rt (cs ! i) (fst (ivs ! i)) (snd (ivs ! i)) (d + 1) (cs' ! i)"



text \<open>The persisted part of a tree: \<open>id\<close>, \<open>name\<close> and \<open>children\<close>, without the layout fields.\<close>

fun persisted :: "node \<Rightarrow> node" where
  "persisted (Node i nm ch t) = Node i nm (map_option (map persisted) ch) noTransient"

text \<open>The nodes of a tree, and their \<open>(id, name)\<close> pairs, in the order of a depth-first search.\<close>

fun nodes :: "node \<Rightarrow> node list" where
  "nodes (Node i nm ch t) =
     Node i nm ch t # (case ch of None \<Rightarrow> [] | Some cs \<Rightarrow> concat (map nodes cs))"

definition labels :: "node \<Rightarrow> (string \<times> string) list" where
  "labels n = map (\<lambda>m. (nid m, name m)) (nodes n)"

definition ids :: "node \<Rightarrow> string list" where
  "ids n = map nid (nodes n)"

text \<open>A node that carries all the fields that \<open>countLeaves\<close> and \<open>layout\<close> write.\<close>

definition laidOut :: "node \<Rightarrow> bool" where
  "laidOut m \<longleftrightarrow>
     u_leafCount (tr m) \<noteq> None \<and> u_isLeaf (tr m) \<noteq> None \<and> u_depth (tr m) \<noteq> None \<and>
     u_angle (tr m) \<noteq> None \<and> u_x (tr m) \<noteq> None \<and> u_y (tr m) \<noteq> None"

text \<open>
  \<open>String.prototype.trim\<close> on the whitespace of ASCII (space, tab, line feed, vertical tab,
  form feed, carriage return); \<open>finishEdit\<close> and the name prompt trim what the user types
  before they call the operations.
\<close>

definition isSpace :: "char \<Rightarrow> bool" where
  "isSpace c \<longleftrightarrow> c \<in> set [CHR 0x20, CHR 0x09, CHR 0x0A, CHR 0x0B, CHR 0x0C, CHR 0x0D]"

definition trim :: "string \<Rightarrow> string" where
  "trim str = rev (dropWhile isSpace (rev (dropWhile isSpace str)))"

text \<open>
  The number \<open>n\<close> of an id of the form \<open>node_n\<close> (decimal digits after the prefix), and the
  condition under which the counter cannot produce an id of the tree again: the ids of the
  tree differ from each other and none has a number above the counter.
\<close>

definition isDigit :: "char \<Rightarrow> bool" where
  "isDigit c \<longleftrightarrow> (48 :: nat) \<le> of_char c \<and> (of_char c :: nat) \<le> 57"

definition parseDecimal :: "string \<Rightarrow> nat option" where
  "parseDecimal str =
     (if str \<noteq> [] \<and> list_all isDigit str
      then Some (foldl (\<lambda>n c. 10 * n + (of_char c - (48 :: nat))) 0 str)
      else None)"

definition idNumber :: "string \<Rightarrow> nat option" where
  "idNumber i = (if take 5 i = ''node_'' then parseDecimal (drop 5 i) else None)"

definition idsFresh :: "mindMap \<Rightarrow> bool" where
  "idsFresh s \<longleftrightarrow>
     distinct (ids (treeData s)) \<and>
     list_all (\<lambda>i. case idNumber i of None \<Rightarrow> True | Some k \<Rightarrow> k \<le> nodeIdCounter s)
       (ids (treeData s))"

text \<open>A sequence of \<open>addChild\<close> and \<open>addSibling\<close> calls, run from a state.\<close>

datatype edit = AddChild string "string option" | AddSibling string "string option"

fun applyEdit :: "mindMap \<Rightarrow> edit \<Rightarrow> fault + bool \<times> mindMap" where
  "applyEdit s (AddChild parentId nm) = addChild s parentId nm"
| "applyEdit s (AddSibling nodeId nm) = addSibling s nodeId nm"

fun runEdits :: "mindMap \<Rightarrow> edit list \<Rightarrow> fault + mindMap" where
  "runEdits s [] = Inr s"
| "runEdits s (ed # eds) =
     (case applyEdit s ed of Inl f \<Rightarrow> Inl f | Inr (ok, s') \<Rightarrow> runEdits s' eds)"

text \<open>
  The scenario of the specification: the tree \<open>root [a, b [b1]]\<close> in a widget with the
  default configuration.
\<close>

definition scenarioTree :: node where
  "scenarioTree =
     Node ''root'' ''R''
       (Some [leafNode ''a'' ''A'', Node ''b'' ''B'' (Some [leafNode ''b1'' ''B1'']) noTransient])
       noTransient"

definition annotatedLeaf :: "string \<Rightarrow> string \<Rightarrow> node" where
  "annotatedLeaf i nm = Node i nm None (noTransient\<lparr>u_leafCount := Some 1, u_isLeaf := Some True\<rparr>)"

definition scenarioAnnotated :: node where
  "scenarioAnnotated =
     Node ''root'' ''R''
       (Some [annotatedLeaf ''a'' ''A'',
              Node ''b'' ''B'' (Some [annotatedLeaf ''b1'' ''B1''])
                (noTransient\<lparr>u_leafCount := Some 1, u_isLeaf := Some False\<rparr>)])
       (noTransient\<lparr>u_leafCount := Some 2, u_isLeaf := Some False\<rparr>)"

definition scenarioState :: mindMap where
  "scenarioState =
     \<lparr>config = defaultConfig, treeData = scenarioTree, zoom = 1, offsetX = 0, offsetY = 0,
      isDragging = False, dragStart = None, isEditing = False, editingNode = None,
      nodeIdCounter = 1700000000000, isTouching = False, touchStart = None,
      lastTouchDistance = None, lastTouchCenter = None, statusEl = Some []\<rparr>"


text \<open>
  A tree that holds an id of the generated form with the number that the counter of the
  state reaches next.
\<close>

definition clashState :: mindMap where
  "clashState =
     scenarioState\<lparr>treeData :=
       Node ''root'' ''R'' (Some [leafNode ''node_1700000000001'' ''A'']) noTransient\<rparr>"

section \<open>The annotator and the layout\<close>

lemma leafNum_Node [simp]:
  "leafNum (Node i nm ch t) = (case u_leafCount t of None \<Rightarrow> 0 | Some k \<Rightarrow> k)"
  by (simp add: leafNum_def)

lemma countLeaves_leafOK:
  "leafOK (fst (countLeaves n)) \<and> leafNum (fst (countLeaves n)) = snd (countLeaves n) \<and> 1 \<le> snd (countLeaves n)"
  "(\<forall>c \<in> set (fst (countLeavesLoop cs acc)). leafOK c)
     \<and> snd (countLeavesLoop cs acc) = acc + sum_list (map leafNum (fst (countLeavesLoop cs acc)))
     \<and> length (fst (countLeavesLoop cs acc)) = length cs
     \<and> (cs \<noteq> [] \<longrightarrow> acc < snd (countLeavesLoop cs acc))"
proof (induction n and cs acc rule: countLeaves_countLeavesLoop.induct)
  case (1 i nm ch t)
  then show ?case
    by (auto split: option.splits prod.splits)
next
  case (2 acc)
  then show ?case by simp
next
  case (3 c cs acc)
  then show ?case
    by (auto split: option.splits prod.splits)
qed

lemma leafOK_leafCount: "leafOK n \<Longrightarrow> u_leafCount (tr n) = Some (leafNum n)"
  by (cases n) (auto split: option.splits if_splits)

lemma leafOK_pos: "leafOK n \<Longrightarrow> 1 \<le> leafNum n"
proof (induction n rule: leafOK.induct)
  case (1 i nm ch t)
  show ?case
  proof (cases ch)
    case None
    with 1 show ?thesis by simp
  next
    case (Some cs)
    show ?thesis
    proof (cases "cs = []")
      case True
      with 1 Some show ?thesis by simp
    next
      case False
      then obtain c cs' where cs: "cs = c # cs'" by (cases cs) auto
      from 1 Some False have "1 \<le> leafNum c" by (simp add: cs)
      with 1(2) Some False show ?thesis by (simp add: cs)
    qed
  qed
qed

lemma layout_total:
  "leafOK n \<Longrightarrow> \<exists>n'. layout cfg n s e d = Inr n'"
  "(\<forall>c \<in> set cs. leafOK c) \<Longrightarrow> (\<exists>k. pl = Some k \<and> k \<noteq> 0) \<Longrightarrow> \<exists>cs'. layoutLoop cfg cs s e pl a d = Inr cs'"
proof (induction cfg n s e d and cfg cs s e pl a d rule: layout_layoutLoop.induct)
  case (1 cfg i nm ch t startAngle endAngle depth)
  show ?case
  proof (cases ch)
    case None
    then show ?thesis by (simp add: Let_def)
  next
    case (Some cs)
    show ?thesis
    proof (cases "cs = []")
      case True
      with Some show ?thesis by (simp add: Let_def)
    next
      case False
      then obtain c cs' where cs: "cs = c # cs'" by (cases cs) auto
      from 1(2) Some False have ok: "\<forall>c \<in> set cs. leafOK c"
        and lc: "u_leafCount t = Some (sum_list (map leafNum cs))" by auto
      from ok cs have "1 \<le> leafNum c" using leafOK_pos[of c] by simp
      then have nz: "sum_list (map leafNum cs) \<noteq> 0" by (simp add: cs)
      with lc have "\<exists>k. u_leafCount t = Some k \<and> k \<noteq> 0" by blast
      from 1(1)[OF refl refl refl refl refl Some False ok this]
      obtain cs'' where "layoutLoop cfg cs startAngle endAngle (u_leafCount t) startAngle (depth + 1) = Inr cs''"
        by blast
      with Some False show ?thesis by (simp add: Let_def)
    qed
  qed
next
  case (2 cfg startAngle endAngle pl angle d)
  then show ?case by simp
next
  case (3 cfg c cs startAngle endAngle pl angle d)
  from 3(3) have okc: "leafOK c" and okcs: "\<forall>c \<in> set cs. leafOK c" by auto
  from 3(4) obtain k where k: "pl = Some k" "k \<noteq> 0" by blast
  have r: "leafRatio (u_leafCount (tr c)) pl = Inr (real (leafNum c) / real k)"
    using k okc by (simp add: leafRatio_def leafOK_leafCount)
  from 3(1)[OF r refl okc] obtain c' where
    c': "layout cfg c angle (angle + (endAngle - startAngle) * (real (leafNum c) / real k)) d = Inr c'"
    by blast
  from 3(2)[OF r refl c' okcs 3(4)] obtain cs' where
    "layoutLoop cfg cs startAngle endAngle pl (angle + (endAngle - startAngle) * (real (leafNum c) / real k)) d = Inr cs'"
    by blast
  with r c' show ?case by (simp add: Let_def)
qed










lemma leafOK_children:
  assumes "leafOK n" and "children n = Some cs" and "cs \<noteq> []"
  shows "(\<forall>c \<in> set cs. leafOK c) \<and> u_leafCount (tr n) = Some (sum_list (map leafNum cs))
    \<and> leafNum n = sum_list (map leafNum cs)"
  using assms by (cases n) auto





lemma layoutRoot_total:
  assumes "leafOK n"
  shows "\<exists>r' . layoutRoot cfg n = Inr r'"
proof (cases "children n")
  case None
  then show ?thesis by (simp add: layoutRoot_def Let_def)
next
  case (Some cs)
  show ?thesis
  proof (cases "cs = []")
    case True
    with Some show ?thesis by (simp add: layoutRoot_def Let_def)
  next
    case False
    from leafOK_children[OF assms Some False] have
      okc: "\<forall>c \<in> set cs. leafOK c" and lc: "u_leafCount (tr n) = Some (sum_list (map leafNum cs))"
      by auto
    from False obtain c cs0 where cs: "cs = c # cs0" by (cases cs) auto
    from okc cs have "1 \<le> leafNum c" using leafOK_pos[of c] by simp
    then have "sum_list (map leafNum cs) \<noteq> 0" by (simp add: cs)
    with lc have "\<exists>k. u_leafCount (tr n) = Some k \<and> k \<noteq> 0" by blast
    from layout_total(2)[OF okc this, of cfg rootStart rootEnd rootStart 1]
    obtain cs' where "layoutLoop cfg cs rootStart rootEnd (u_leafCount (tr n)) rootStart 1 = Inr cs'"
      by blast
    with Some show ?thesis by (simp add: layoutRoot_def Let_def)
  qed
qed


section \<open>The layout pass, node by node\<close>














section \<open>Viewport gestures\<close>

text \<open>
  Claim C3. For a state with a positive zoom and a viewport whose visual center is the
  point \<open>c\<close> of the canvas (\<open>screenToSvg\<close> of the center of the bounding box), the wheel
  handler returns a state in which every point of the diagram that was drawn at \<open>c\<close>
  before is drawn at \<open>c\<close> again (exactly, in real arithmetic), whatever \<open>deltaY\<close> is.
\<close>

theorem wheel_zoom_anchor:
  assumes "0 < zoom s"
    and "screenToSvg (config s) r (r_left r + r_width r / 2) (r_top r + r_height r / 2) = Inr c"
  shows "\<exists>s'. handleWheel s r deltaY = Inr s' \<and>
           (\<forall>p. viewportTransform s p = c \<longrightarrow> viewportTransform s' p = c)"
proof (cases "isEditing s")
  case True
  then show ?thesis by (simp add: handleWheel_def)
next
  case False
  let ?z = "zoom s * (if deltaY > 0 then 9 / 10 else 11 / 10)"
  let ?s' = "s\<lparr>zoom := ?z,
        offsetX := fst c - (fst c - offsetX s) / zoom s * ?z,
        offsetY := snd c - (snd c - offsetY s) / zoom s * ?z\<rparr>"
  have h: "handleWheel s r deltaY = Inr ?s'"
    using False assms by (simp add: handleWheel_def Let_def)
  have "viewportTransform ?s' p = c" if p: "viewportTransform s p = c" for p
  proof -
    from p have x: "fst c - offsetX s = zoom s * fst p" and y: "snd c - offsetY s = zoom s * snd p"
      by (auto simp: viewportTransform_def)
    have "(fst c - offsetX s) / zoom s = fst p" "(snd c - offsetY s) / zoom s = snd p"
      using assms(1) by (simp_all add: x y)
    then show ?thesis
      by (simp add: viewportTransform_def prod_eq_iff mult.commute)
  qed
  with h show ?thesis by blast
qed

theorem wheel_zoom_anchor_witness:
  "0 < zoom scenarioState \<and>
   screenToSvg (config scenarioState) \<lparr>r_left = 10, r_top = 20, r_width = 400, r_height = 400\<rparr>
     (10 + 400 / 2) (20 + 400 / 2) = Inr (400, 400) \<and>
   (\<exists>s'. handleWheel scenarioState \<lparr>r_left = 10, r_top = 20, r_width = 400, r_height = 400\<rparr> (- 100) = Inr s' \<and>
      zoom s' = 11 / 10 \<and> offsetX s' = - 40 \<and>
      viewportTransform scenarioState (400, 400) = (400, 400) \<and>
      viewportTransform s' (400, 400) = (400, 400))"
proof -
  let ?r = "\<lparr>r_left = 10, r_top = 20, r_width = 400, r_height = 400\<rparr>"
  have z: "0 < zoom scenarioState" by (simp add: scenarioState_def)
  have c: "screenToSvg (config scenarioState) ?r (r_left ?r + r_width ?r / 2) (r_top ?r + r_height ?r / 2)
      = Inr (400, 400)"
    by (simp add: screenToSvg_def scenarioState_def defaultConfig_def)
  have v: "viewportTransform scenarioState (400, 400) = (400, 400)"
    by (simp add: viewportTransform_def scenarioState_def)
  from wheel_zoom_anchor[OF z c, of "- 100"] obtain s' where
    h: "handleWheel scenarioState ?r (- 100) = Inr s'"
       "\<forall>p. viewportTransform scenarioState p = (400, 400) \<longrightarrow> viewportTransform s' p = (400, 400)"
    by blast
  from h(2) v have v': "viewportTransform s' (400, 400) = (400, 400)" by blast
  from h(1) have "zoom s' = 11 / 10 \<and> offsetX s' = - 40"
    by (auto simp: handleWheel_def screenToSvg_def scenarioState_def defaultConfig_def Let_def)
  with z c h(1) v v' show ?thesis by auto
qed

text \<open>
  Claim C9. In a state with the editing flag set, the wheel, mouse-down, mouse-move,
  touch-start and touch-move handlers return the state as it is: the zoom, the pan offset
  and every other field stay unchanged.
\<close>

theorem gestures_inert_while_editing:
  assumes "isEditing s"
  shows "handleWheel s r deltaY = Inr s \<and> handleMouseDown s e = s \<and> handleMouseMove s e = Inr s \<and>
         handleTouchStart s r te = Inr s \<and> handleTouchMove s r te = Inr s"
  using assms
  by (simp add: handleWheel_def handleMouseDown_def handleMouseMove_def handleTouchStart_def
      handleTouchMove_def)

theorem gestures_inert_while_editing_witness:
  "isEditing (scenarioState\<lparr>isEditing := True, isTouching := True, isDragging := True\<rparr>) \<and>
   handleWheel (scenarioState\<lparr>isEditing := True, isTouching := True, isDragging := True\<rparr>)
     \<lparr>r_left = 0, r_top = 0, r_width = 800, r_height = 800\<rparr> (- 100)
     = Inr (scenarioState\<lparr>isEditing := True, isTouching := True, isDragging := True\<rparr>) \<and>
   handleMouseMove (scenarioState\<lparr>isEditing := True, isTouching := True, isDragging := True\<rparr>)
     \<lparr>clientX = 5, clientY = 7\<rparr>
     = Inr (scenarioState\<lparr>isEditing := True, isTouching := True, isDragging := True\<rparr>) \<and>
   handleTouchMove (scenarioState\<lparr>isEditing := True, isTouching := True, isDragging := True\<rparr>)
     \<lparr>r_left = 0, r_top = 0, r_width = 800, r_height = 800\<rparr>
     \<lparr>touches = [\<lparr>clientX = 5, clientY = 7\<rparr>, \<lparr>clientX = 50, clientY = 70\<rparr>], onNode = False\<rparr>
     = Inr (scenarioState\<lparr>isEditing := True, isTouching := True, isDragging := True\<rparr>)"
proof -
  have e: "isEditing (scenarioState\<lparr>isEditing := True, isTouching := True, isDragging := True\<rparr>)"
    by simp
  from gestures_inert_while_editing[OF e] e show ?thesis by blast
qed

section \<open>Rendering keeps the persisted tree\<close>

lemma persisted_countLeaves:
  "persisted (fst (countLeaves n)) = persisted n"
  "map persisted (fst (countLeavesLoop cs acc)) = map persisted cs"
  by (induction n and cs acc rule: countLeaves_countLeavesLoop.induct)
     (auto split: option.splits prod.splits)

lemma persisted_layout:
  "layout cfg n s e d = Inr n' \<Longrightarrow> persisted n' = persisted n"
  "layoutLoop cfg cs s e pl a d = Inr cs' \<Longrightarrow> map persisted cs' = map persisted cs"
proof (induction cfg n s e d and cfg cs s e pl a d arbitrary: n' and cs' rule: layout_layoutLoop.induct)
  case (1 cfg i nm ch t startAngle endAngle depth)
  show ?case
  proof (cases ch)
    case None
    with 1(2) show ?thesis by (auto simp: Let_def)
  next
    case (Some cs)
    show ?thesis
    proof (cases "cs = []")
      case True
      with 1(2) Some show ?thesis by (auto simp: Let_def)
    next
      case False
      with 1(2) Some obtain cs' where
        l: "layoutLoop cfg cs startAngle endAngle (u_leafCount t) startAngle (depth + 1) = Inr cs'"
        and n': "persisted n' = Node i nm (Some (map persisted cs')) noTransient"
        by (auto simp: Let_def split: sum.splits)
      from 1(1)[OF refl refl refl refl refl Some False l] n' Some show ?thesis by simp
    qed
  qed
next
  case (2 cfg startAngle endAngle pl angle d)
  then show ?case by simp
next
  case (3 cfg c cs startAngle endAngle pl angle d)
  from 3(3) obtain q c' cs'' where
    q: "leafRatio (u_leafCount (tr c)) pl = Inr q"
    and c': "layout cfg c angle (angle + (endAngle - startAngle) * q) d = Inr c'"
    and l: "layoutLoop cfg cs startAngle endAngle pl (angle + (endAngle - startAngle) * q) d = Inr cs''"
    and eq: "cs' = c' # cs''"
    by (auto simp: Let_def split: sum.splits)
  from 3(1)[OF q refl c'] 3(2)[OF q refl c' l] eq show ?case by simp
qed

lemma persisted_layoutRoot:
  "layoutRoot cfg n = Inr r' \<Longrightarrow> persisted r' = persisted n"
  by (cases n)
     (auto simp: layoutRoot_def Let_def split: option.splits sum.splits dest: persisted_layout(2))

lemma render_ok:
  "\<exists>t'. render s = Inr (s\<lparr>treeData := t'\<rparr>) \<and> persisted t' = persisted (treeData s)"
proof -
  have "leafOK (fst (countLeaves (treeData s)))" by (simp add: countLeaves_leafOK(1))
  from layoutRoot_total[OF this, of "config s"] obtain t' where
    t': "layoutRoot (config s) (fst (countLeaves (treeData s))) = Inr t'" by blast
  from persisted_layoutRoot[OF t'] have "persisted t' = persisted (treeData s)"
    by (simp add: persisted_countLeaves(1))
  with t' show ?thesis by (auto simp: render_def)
qed

lemma jsonClone_id: "jsonClone n = n"
proof (induction n rule: jsonClone.induct)
  case (1 i nm ch t)
  show ?case
  proof (cases ch)
    case None
    then show ?thesis by simp
  next
    case (Some cs)
    with 1 have "map jsonClone cs = cs" by (intro map_idI) simp
    with Some show ?thesis by simp
  qed
qed

section \<open>The constructor and the zoom\<close>

lemma setStatus_fields [simp]:
  "config (setStatus s m) = config s" "treeData (setStatus s m) = treeData s"
  "zoom (setStatus s m) = zoom s" "offsetX (setStatus s m) = offsetX s"
  "offsetY (setStatus s m) = offsetY s" "isEditing (setStatus s m) = isEditing s"
  "nodeIdCounter (setStatus s m) = nodeIdCounter s"
  by (simp_all add: setStatus_def split: option.splits)

lemma setData_ok:
  "\<exists>t'. setData s dat = Inr (setStatus (s\<lparr>treeData := t'\<rparr>) ''Data loaded successfully'') \<and>
        persisted t' = persisted dat"
proof -
  from render_ok[of "s\<lparr>treeData := jsonClone dat\<rparr>"] obtain t' where
    "render (s\<lparr>treeData := jsonClone dat\<rparr>) = Inr (s\<lparr>treeData := t'\<rparr>)"
    "persisted t' = persisted dat"
    by (auto simp: jsonClone_id)
  then show ?thesis by (auto simp: setData_def)
qed

lemma construct_ok:
  "\<exists>s0. construct cfg now st = Inr s0 \<and> zoom s0 = 1 \<and> offsetX s0 = 0 \<and> offsetY s0 = 0 \<and>
        \<not> isEditing s0 \<and> config s0 = cfg \<and> nodeIdCounter s0 = now \<and>
        persisted (treeData s0) = persisted defaultData"
  unfolding construct_def
  using setData_ok[of "\<lparr>config = cfg, treeData = leafNode [] [], zoom = 1, offsetX = 0, offsetY = 0,
        isDragging = False, dragStart = None, isEditing = False, editingNode = None,
        nodeIdCounter = now, isTouching = False, touchStart = None,
        lastTouchDistance = None, lastTouchCenter = None, statusEl = st\<rparr>" defaultData]
  by auto

lemma wheel_in_repeat:
  "\<not> isEditing s \<Longrightarrow> zoom s \<noteq> 0 \<Longrightarrow> r_width r \<noteq> 0 \<Longrightarrow> r_height r \<noteq> 0 \<Longrightarrow> \<not> 0 < deltaY \<Longrightarrow>
     \<exists>s'. runGestures s (replicate k (Wheel r deltaY)) = Inr s' \<and> zoom s' = zoom s * (11 / 10) ^ k"
proof (induction k arbitrary: s)
  case 0
  then show ?case by simp
next
  case (Suc k)
  let ?c = "(((r_left r + r_width r / 2) - r_left r) / r_width r * width (config s),
             ((r_top r + r_height r / 2) - r_top r) / r_height r * height (config s))"
  let ?s1 = "s\<lparr>zoom := zoom s * (11 / 10),
        offsetX := fst ?c - (fst ?c - offsetX s) / zoom s * (zoom s * (11 / 10)),
        offsetY := snd ?c - (snd ?c - offsetY s) / zoom s * (zoom s * (11 / 10))\<rparr>"
  have h: "handleWheel s r deltaY = Inr ?s1"
    using Suc.prems by (simp add: handleWheel_def screenToSvg_def Let_def)
  have "\<not> isEditing ?s1" "zoom ?s1 \<noteq> 0" using Suc.prems by simp_all
  from Suc.IH[OF this Suc.prems(3,4,5)] obtain s' where
    "runGestures ?s1 (replicate k (Wheel r deltaY)) = Inr s'" "zoom s' = zoom ?s1 * (11 / 10) ^ k"
    by blast
  with h show ?case by simp
qed

lemma pinch_clamps_zoom:
  assumes "pinch s r t0 t1 lastDistance ts = Inr s'"
  shows "1 / 10 \<le> zoom s' \<and> zoom s' \<le> 5"
proof -
  from assms obtain w where "zoom s' = max (1 / 10) (min 5 w)"
    by (auto simp: pinch_def Let_def split: option.splits sum.splits if_splits)
  then show ?thesis by (simp add: max_def min_def)
qed

text \<open>
  Claim C4 at a failing input: from the state that the constructor returns, with the zoom
  \<open>1\<close>, seventeen wheel events with a negative \<open>deltaY\<close> give the zoom \<open>(11 / 10) ^ 17\<close>,
  which is above \<open>5\<close>. The wheel handler does not clamp the zoom; the pinch branch of
  \<open>handleTouchMove\<close> does (\<open>pinch_clamps_zoom\<close>).
\<close>

theorem wheel_zoom_exceeds_bound:
  "\<not> isl (construct defaultConfig 1700000000000 (Some [])) \<and>
   zoom (projr (construct defaultConfig 1700000000000 (Some []))) = 1 \<and>
   \<not> isl (runGestures (projr (construct defaultConfig 1700000000000 (Some [])))
            (replicate 17 (Wheel \<lparr>r_left = 0, r_top = 0, r_width = 800, r_height = 800\<rparr> (- 100)))) \<and>
   zoom (projr (runGestures (projr (construct defaultConfig 1700000000000 (Some [])))
            (replicate 17 (Wheel \<lparr>r_left = 0, r_top = 0, r_width = 800, r_height = 800\<rparr> (- 100)))))
     = (11 / 10) ^ 17 \<and>
   5 < zoom (projr (runGestures (projr (construct defaultConfig 1700000000000 (Some [])))
            (replicate 17 (Wheel \<lparr>r_left = 0, r_top = 0, r_width = 800, r_height = 800\<rparr> (- 100)))))"
proof -
  let ?r = "\<lparr>r_left = 0, r_top = 0, r_width = 800, r_height = 800\<rparr>"
  from construct_ok[of defaultConfig 1700000000000 "Some []"] obtain s0 where
    s0: "construct defaultConfig 1700000000000 (Some []) = Inr s0" "zoom s0 = 1" "\<not> isEditing s0"
    by blast
  from wheel_in_repeat[of s0 ?r "- 100" 17] s0 obtain s' where
    s': "runGestures s0 (replicate 17 (Wheel ?r (- 100))) = Inr s'" "zoom s' = (11 / 10) ^ 17"
    by auto
  have "(5 :: real) < (11 / 10) ^ 17" by (simp add: power_divide)
  with s0 s' show ?thesis by simp
qed

section \<open>Searching and updating the tree\<close>

lemma labels_Node [simp]:
  "labels (Node i nm ch t) =
     (i, nm) # (case ch of None \<Rightarrow> [] | Some cs \<Rightarrow> concat (map labels cs))"
proof -
  have h: "labels = (\<lambda>n. map (\<lambda>m. (nid m, name m)) (nodes n))"
    by (simp add: fun_eq_iff labels_def)
  show ?thesis unfolding h by (cases ch) (simp_all add: map_concat comp_def)
qed

lemma ids_labels: "ids n = map fst (labels n)"
  by (simp add: ids_def labels_def comp_def)

lemma labels_persisted: "labels (persisted n) = labels n"
proof (induction n rule: persisted.induct)
  case (1 i nm ch t)
  show ?case
  proof (cases ch)
    case None
    then show ?thesis by simp
  next
    case (Some cs)
    have "concat (map (\<lambda>c. labels (persisted c)) cs) = concat (map labels cs)"
      using 1 Some by (intro arg_cong[where f = concat] map_cong) simp_all
    with Some show ?thesis by (simp add: comp_def)
  qed
qed

lemma labels_eq_persisted: "persisted a = persisted b \<Longrightarrow> labels a = labels b"
  using labels_persisted[of a] labels_persisted[of b] by simp

lemma findNodeById_persisted:
  "findNodeById (persisted n) k = map_option persisted (findNodeById n k)"
  "findNodeLoop (map persisted cs) k = map_option persisted (findNodeLoop cs k)"
  by (induction n k and cs k rule: findNodeById_findNodeLoop.induct)
     (auto split: option.splits)

lemma findNodeById_nid:
  "findNodeById n k = Some m \<Longrightarrow> nid m = k"
  "findNodeLoop cs k = Some m \<Longrightarrow> nid m = k"
  by (induction n k and cs k rule: findNodeById_findNodeLoop.induct)
     (auto split: option.splits if_splits)

lemma findNodeById_update:
  "findNodeById n k = Some m \<Longrightarrow> nid (f m) = k \<Longrightarrow> findNodeById (updateNodeById f n k) k = Some (f m)"
  "findNodeLoop cs k = Some m \<Longrightarrow> nid (f m) = k \<Longrightarrow> findNodeLoop (updateNodeLoop f cs k) k = Some (f m)"
proof (induction f n k and f cs k rule: updateNodeById_updateNodeLoop.induct)
  case (1 f i nm ch t k)
  show ?case
  proof (cases "i = k")
    case True
    with 1(2,3) show ?thesis by (cases "f (Node i nm ch t)") auto
  next
    case False
    with 1(2) obtain cs where ch: "ch = Some cs" and l: "findNodeLoop cs k = Some m"
      by (auto split: option.splits)
    from 1(1)[OF False ch l 1(3)] False ch show ?thesis by simp
  qed
next
  case (2 f k)
  then show ?case by simp
next
  case (3 f c cs k)
  show ?case
  proof (cases "findNodeById c k")
    case None
    with 3(3) have l: "findNodeLoop cs k = Some m" by simp
    from 3(1)[OF None l 3(4)] None show ?thesis by simp
  next
    case (Some found)
    with 3(3) have "found = m" by simp
    with 3(2)[OF Some] Some 3(4) show ?thesis by simp
  qed
qed

lemma labels_updateNodeById:
  "findNodeById n k \<noteq> None \<Longrightarrow> \<forall>m. mset (labels (f m)) = mset (labels m) + X \<Longrightarrow>
     mset (labels (updateNodeById f n k)) = mset (labels n) + X"
  "findNodeLoop cs k \<noteq> None \<Longrightarrow> \<forall>m. mset (labels (f m)) = mset (labels m) + X \<Longrightarrow>
     mset (concat (map labels (updateNodeLoop f cs k))) = mset (concat (map labels cs)) + X"
proof (induction f n k and f cs k rule: updateNodeById_updateNodeLoop.induct)
  case (1 f i nm ch t k)
  show ?case
  proof (cases "i = k")
    case True
    then show ?thesis using 1(3) by simp
  next
    case False
    with 1(2) obtain cs where ch: "ch = Some cs" and l: "findNodeLoop cs k \<noteq> None"
      by (auto split: option.splits)
    from 1(1)[OF False ch l 1(3)] False ch show ?thesis by simp
  qed
next
  case (2 f k)
  then show ?case by simp
next
  case (3 f c cs k)
  show ?case
  proof (cases "findNodeById c k")
    case None
    with 3(3) have l: "findNodeLoop cs k \<noteq> None" by simp
    from 3(1)[OF None l 3(4)] None show ?thesis by simp
  next
    case (Some found)
    then have "findNodeById c k \<noteq> None" by simp
    from 3(2)[OF Some this 3(4)] Some show ?thesis by simp
  qed
qed

lemma labels_updateParentById:
  "findParentById n k \<noteq> None \<Longrightarrow> \<forall>m. mset (labels (f m)) = mset (labels m) + X \<Longrightarrow>
     mset (labels (updateParentById f n k)) = mset (labels n) + X"
  "findParentLoop p cs k \<noteq> None \<Longrightarrow> \<forall>m. mset (labels (f m)) = mset (labels m) + X \<Longrightarrow>
     (fst (updateParentLoop f cs k) \<or>
      mset (concat (map labels (snd (updateParentLoop f cs k)))) = mset (concat (map labels cs)) + X)"
proof (induction f n k and f cs k arbitrary: and p rule: updateParentById_updateParentLoop.induct)
  case (1 f i nm ch t k)
  from 1(2) obtain cs where ch: "ch = Some cs"
    and l: "findParentLoop (Node i nm ch t) cs k \<noteq> None"
    by (auto split: option.splits)
  show ?case
  proof (cases "fst (updateParentLoop f cs k)")
    case True
    then have "updateParentById f (Node i nm ch t) k = f (Node i nm ch t)"
      using ch by (auto split: prod.splits)
    then show ?thesis using 1(3) by simp
  next
    case False
    with 1(1)[OF ch l 1(3)] have
      "mset (concat (map labels (snd (updateParentLoop f cs k)))) = mset (concat (map labels cs)) + X"
      by simp
    with False ch show ?thesis by (auto split: prod.splits)
  qed
next
  case (2 f k)
  then show ?case by simp
next
  case (3 f c cs k)
  show ?case
  proof (cases "nid c = k")
    case True
    then show ?thesis by simp
  next
    case False
    show ?thesis
    proof (cases "findParentById c k")
      case None
      with 3(3) False have l: "findParentLoop p cs k \<noteq> None" by simp
      from 3(1)[OF False None l 3(4)] False None show ?thesis
        by (auto split: prod.splits)
    next
      case (Some found)
      then have "findParentById c k \<noteq> None" by simp
      from 3(2)[OF False Some this 3(4)] False Some show ?thesis by simp
    qed
  qed
qed

lemma labels_pushChild:
  "mset (labels (pushChild newNode m)) = mset (labels m) + mset (labels newNode)"
  by (cases m) (auto simp: pushChild_def split: option.splits)

lemma labels_insertSibling:
  "mset (labels (insertSibling k newNode m)) = mset (labels m) + mset (labels newNode)"
proof -
  have "mset (concat (map labels (take a cs @ [newNode] @ drop a cs)))
      = mset (concat (map labels cs)) + mset (labels newNode)" for a cs
  proof -
    have "mset (concat (map labels (take a cs @ drop a cs))) = mset (concat (map labels cs))"
      by simp
    then show ?thesis by (simp del: append_take_drop_id)
  qed
  then show ?thesis
    by (cases m) (auto simp: insertSibling_def Let_def split: option.splits)
qed

text \<open>
  An update applies its function to the node that the search returns, and to nothing
  else: the function may be replaced by the constant function with the value at that node.
\<close>

lemma updateNodeById_found:
  "updateNodeById f n k =
     (case findNodeById n k of None \<Rightarrow> n | Some m \<Rightarrow> updateNodeById (\<lambda>_. f m) n k)"
  "updateNodeLoop f cs k =
     (case findNodeLoop cs k of None \<Rightarrow> cs | Some m \<Rightarrow> updateNodeLoop (\<lambda>_. f m) cs k)"
proof (induction f n k and f cs k rule: updateNodeById_updateNodeLoop.induct)
  case (1 f i nm ch t k)
  show ?case
  proof (cases "i = k")
    case True
    then show ?thesis by simp
  next
    case False
    show ?thesis
    proof (cases ch)
      case None
      with False show ?thesis by simp
    next
      case (Some cs)
      with False 1[OF False Some] show ?thesis by (simp split: option.splits)
    qed
  qed
next
  case (2 f k)
  then show ?case by simp
next
  case (3 f c cs k)
  show ?case
  proof (cases "findNodeById c k")
    case None
    with 3(1)[OF None] show ?thesis by (simp split: option.splits)
  next
    case (Some found)
    with 3(2)[OF Some] show ?thesis by simp
  qed
qed

lemma updateParentById_found:
  "updateParentById f n k =
     (case findParentById n k of None \<Rightarrow> n | Some q \<Rightarrow> updateParentById (\<lambda>_. f q) n k)"
  "updateParentLoop f cs k =
     (case findParentLoop p cs k of
        None \<Rightarrow> (False, cs)
      | Some q \<Rightarrow> updateParentLoop (\<lambda>_. f q) cs k) \<and>
   (fst (updateParentLoop f cs k) \<longrightarrow> findParentLoop p cs k = Some p)"
proof (induction f n k and f cs k arbitrary: and p rule: updateParentById_updateParentLoop.induct)
  case (1 f i nm ch t k)
  show ?case
  proof (cases ch)
    case None
    then show ?thesis by simp
  next
    case (Some cs)
    note ch = Some
    let ?n = "Node i nm ch t"
    from 1[OF ch, of ?n] have
      e: "updateParentLoop f cs k =
         (case findParentLoop ?n cs k of
            None \<Rightarrow> (False, cs)
          | Some q \<Rightarrow> updateParentLoop (\<lambda>_. f q) cs k)"
      and s: "fst (updateParentLoop f cs k) \<longrightarrow> findParentLoop ?n cs k = Some ?n"
      by blast+
    have fp: "findParentById ?n k = findParentLoop ?n cs k" using ch by simp
    show ?thesis
    proof (cases "findParentLoop ?n cs k")
      case None
      with e have "updateParentLoop f cs k = (False, cs)" by simp
      then have "updateParentById f ?n k = ?n" using ch by simp
      with None fp show ?thesis by simp
    next
      case (Some q)
      with e have e': "updateParentLoop f cs k = updateParentLoop (\<lambda>_. f q) cs k" by simp
      obtain b cs' where r: "updateParentLoop f cs k = (b, cs')" by (cases "updateParentLoop f cs k")
      with e' have r': "updateParentLoop (\<lambda>_. f q) cs k = (b, cs')" by simp
      have "updateParentById f ?n k = updateParentById (\<lambda>_. f q) ?n k"
      proof (cases b)
        case True
        with r s Some have "q = ?n" by simp
        then have "f ?n = f q" by simp
        moreover have "updateParentById f ?n k = f ?n" using ch r True by simp
        moreover have "updateParentById (\<lambda>_. f q) ?n k = f q" using ch r' True by simp
        ultimately show ?thesis by simp
      next
        case False
        have "updateParentById f ?n k = Node i nm (Some cs') t" using ch r False by simp
        moreover have "updateParentById (\<lambda>_. f q) ?n k = Node i nm (Some cs') t"
          using ch r' False by simp
        ultimately show ?thesis by simp
      qed
      with Some fp show ?thesis by simp
    qed
  qed
next
  case (2 f k)
  then show ?case by simp
next
  case (3 f c cs k)
  show ?case
  proof (cases "nid c = k")
    case True
    then show ?thesis by simp
  next
    case False
    show ?thesis
    proof (cases "findParentById c k")
      case None
      from 3(1)[OF False None, of p] have
        e: "updateParentLoop f cs k =
           (case findParentLoop p cs k of
              None \<Rightarrow> (False, cs)
            | Some q \<Rightarrow> updateParentLoop (\<lambda>_. f q) cs k)"
        and s: "fst (updateParentLoop f cs k) \<longrightarrow> findParentLoop p cs k = Some p"
        by blast+
      have fl: "findParentLoop p (c # cs) k = findParentLoop p cs k"
        using False None by simp
      have ul: "updateParentLoop g (c # cs) k =
          (case updateParentLoop g cs k of (b, cs') \<Rightarrow> (b, c # cs'))" for g
        using False None by simp
      have A: "updateParentLoop f (c # cs) k =
         (case findParentLoop p (c # cs) k of
            None \<Rightarrow> (False, c # cs)
          | Some q \<Rightarrow> updateParentLoop (\<lambda>_. f q) (c # cs) k)"
      proof (cases "findParentLoop p cs k")
        case None
        with e have "updateParentLoop f cs k = (False, cs)" by simp
        then have "updateParentLoop f (c # cs) k = (False, c # cs)" by (simp only: ul prod.case)
        with None fl show ?thesis by simp
      next
        case (Some q)
        with e have "updateParentLoop f cs k = updateParentLoop (\<lambda>_. f q) cs k" by simp
        then have "updateParentLoop f (c # cs) k = updateParentLoop (\<lambda>_. f q) (c # cs) k"
          by (simp only: ul)
        with Some fl show ?thesis by simp
      qed
      have "fst (updateParentLoop f (c # cs) k) = fst (updateParentLoop f cs k)"
        by (simp only: ul case_prod_beta fst_conv)
      with s fl have B: "fst (updateParentLoop f (c # cs) k) \<longrightarrow> findParentLoop p (c # cs) k = Some p"
        by simp
      from A B show ?thesis by (rule conjI)
    next
      case (Some found)
      from 3(2)[OF False Some] Some have
        "updateParentById f c k = updateParentById (\<lambda>_. f found) c k" by simp
      then have "updateParentLoop f (c # cs) k = updateParentLoop (\<lambda>_. f found) (c # cs) k"
        using False Some by simp
      moreover have "findParentLoop p (c # cs) k = Some found" using False Some by simp
      moreover have "\<not> fst (updateParentLoop f (c # cs) k)" using False Some by simp
      ultimately show ?thesis by simp
    qed
  qed
qed

section \<open>Generated identifiers\<close>

lemma parseDecimal_numToString:
  "numToString n \<noteq> [] \<and> list_all isDigit (numToString n) \<and>
   foldl (\<lambda>a c. 10 * a + (of_char c - (48 :: nat))) 0 (numToString n) = n"
proof (induction n rule: numToString.induct)
  case (1 n)
  show ?case
  proof (cases "n < 10")
    case True
    then have "numToString n = [char_of (48 + n)]" by (simp add: numToString.simps)
    moreover have "(48 + n) mod 256 = 48 + n" using True by simp
    moreover have "n \<le> 9" using True by simp
    ultimately show ?thesis by (simp add: isDigit_def)
  next
    case False
    then have eq: "numToString n = numToString (n div 10) @ [char_of (48 + n mod 10)]"
      by (subst numToString.simps) simp
    have m: "(48 + n mod 10) mod 256 = 48 + n mod 10"
      by (rule mod_less) (simp add: less_le_trans[OF add_strict_left_mono[OF pos_mod_bound[of 10 n]]])
    have d: "isDigit (char_of (48 + n mod 10))"
      using m by (simp add: isDigit_def) 
    from 1[OF False] d m show ?thesis by (simp add: eq)
  qed
qed

lemma idNumber_generated: "idNumber (''node_'' @ numToString n) = Some n"
  using parseDecimal_numToString[of n] by (simp add: idNumber_def parseDecimal_def)

section \<open>Tree operations\<close>

lemma render_fields:
  "render s = Inr s' \<Longrightarrow>
     config s' = config s \<and> nodeIdCounter s' = nodeIdCounter s \<and> statusEl s' = statusEl s \<and>
     persisted (treeData s') = persisted (treeData s)"
  using render_ok[of s] by auto

lemma addChild_ok:
  assumes "editable (config s)" and "findNodeById (treeData s) parentId = Some p"
  shows "\<exists>s'. addChild s parentId nm = Inr (True, s') \<and> config s' = config s \<and>
           nodeIdCounter s' = nodeIdCounter s + 1 \<and>
           persisted (treeData s') =
             persisted (updateNodeById
               (pushChild (Node (fst (generateId s)) (orDefault nm ''New Node'') None noTransient))
               (treeData s) parentId)"
proof -
  let ?new = "Node (fst (generateId s)) (orDefault nm ''New Node'') None noTransient"
  let ?s2 = "s\<lparr>nodeIdCounter := nodeIdCounter s + 1,
               treeData := updateNodeById (pushChild ?new) (treeData s) parentId\<rparr>"
  from render_ok[of ?s2] obtain s3 where s3: "render ?s2 = Inr s3" by blast
  from render_fields[OF s3] s3 assms show ?thesis
    by (simp add: addChild_def generateId_def Let_def)
qed

lemma addChild_fail:
  "\<not> editable (config s) \<or> findNodeById (treeData s) parentId = None \<Longrightarrow>
     addChild s parentId nm = Inr (False, s)"
  by (auto simp: addChild_def)

lemma addSibling_ok:
  assumes "editable (config s)" and "findParentById (treeData s) nodeId = Some p"
  shows "\<exists>s'. addSibling s nodeId nm = Inr (True, s') \<and> config s' = config s \<and>
           nodeIdCounter s' = nodeIdCounter s + 1 \<and>
           persisted (treeData s') =
             persisted (updateParentById
               (insertSibling nodeId (Node (fst (generateId s)) (orDefault nm ''New Node'') None noTransient))
               (treeData s) nodeId)"
proof -
  let ?new = "Node (fst (generateId s)) (orDefault nm ''New Node'') None noTransient"
  let ?s2 = "s\<lparr>nodeIdCounter := nodeIdCounter s + 1,
               treeData := updateParentById (insertSibling nodeId ?new) (treeData s) nodeId\<rparr>"
  from render_ok[of ?s2] obtain s3 where s3: "render ?s2 = Inr s3" by blast
  from render_fields[OF s3] s3 assms show ?thesis
    by (simp add: addSibling_def generateId_def Let_def)
qed

lemma addSibling_fail:
  "\<not> editable (config s) \<or> findParentById (treeData s) nodeId = None \<Longrightarrow>
     addSibling s nodeId nm = Inr (False, s)"
  by (auto simp: addSibling_def)

lemma addChild_labels:
  assumes "addChild s parentId nm = Inr (True, s')"
  shows "mset (labels (treeData s')) =
           add_mset (fst (generateId s), orDefault nm ''New Node'') (mset (labels (treeData s))) \<and>
         nodeIdCounter s' = nodeIdCounter s + 1 \<and> config s' = config s"
proof -
  have "\<not> (\<not> editable (config s) \<or> findNodeById (treeData s) parentId = None)"
  proof
    assume "\<not> editable (config s) \<or> findNodeById (treeData s) parentId = None"
    from addChild_fail[OF this, of nm] assms show False by simp
  qed
  then have e: "editable (config s)" and "findNodeById (treeData s) parentId \<noteq> None" by auto
  then obtain p where p: "findNodeById (treeData s) parentId = Some p" by blast
  let ?new = "Node (fst (generateId s)) (orDefault nm ''New Node'') None noTransient"
  from addChild_ok[OF e p, of nm] assms have
    h: "persisted (treeData s') = persisted (updateNodeById (pushChild ?new) (treeData s) parentId)"
       "nodeIdCounter s' = nodeIdCounter s + 1" "config s' = config s"
    by auto
  have "mset (labels (updateNodeById (pushChild ?new) (treeData s) parentId))
      = mset (labels (treeData s)) + mset (labels ?new)"
    using p by (intro labels_updateNodeById(1)) (simp_all add: labels_pushChild)
  with labels_eq_persisted[OF h(1)] h(2,3) show ?thesis by simp
qed

lemma addSibling_labels:
  assumes "addSibling s nodeId nm = Inr (True, s')"
  shows "mset (labels (treeData s')) =
           add_mset (fst (generateId s), orDefault nm ''New Node'') (mset (labels (treeData s))) \<and>
         nodeIdCounter s' = nodeIdCounter s + 1 \<and> config s' = config s"
proof -
  have "\<not> (\<not> editable (config s) \<or> findParentById (treeData s) nodeId = None)"
  proof
    assume "\<not> editable (config s) \<or> findParentById (treeData s) nodeId = None"
    from addSibling_fail[OF this, of nm] assms show False by simp
  qed
  then have e: "editable (config s)" and "findParentById (treeData s) nodeId \<noteq> None" by auto
  then obtain p where p: "findParentById (treeData s) nodeId = Some p" by blast
  let ?new = "Node (fst (generateId s)) (orDefault nm ''New Node'') None noTransient"
  from addSibling_ok[OF e p, of nm] assms have
    h: "persisted (treeData s') = persisted (updateParentById (insertSibling nodeId ?new) (treeData s) nodeId)"
       "nodeIdCounter s' = nodeIdCounter s + 1" "config s' = config s"
    by auto
  have "mset (labels (updateParentById (insertSibling nodeId ?new) (treeData s) nodeId))
      = mset (labels (treeData s)) + mset (labels ?new)"
    using p by (intro labels_updateParentById(1)) (simp_all add: labels_insertSibling)
  with labels_eq_persisted[OF h(1)] h(2,3) show ?thesis by simp
qed

lemma renameNode_ok:
  assumes "editable (config s)" and "findNodeById (treeData s) nodeId = Some p"
  shows "\<exists>s' m. renameNode s nodeId newName = Inr (True, s') \<and>
           findNodeById (treeData s') nodeId = Some m \<and>
           name m = (if newName = [] then ''Unnamed'' else newName)"
proof -
  let ?nm = "orDefault (Some newName) ''Unnamed''"
  let ?t1 = "updateNodeById (setName ?nm) (treeData s) nodeId"
  from render_ok[of "s\<lparr>treeData := ?t1\<rparr>"] obtain s2 where
    s2: "render (s\<lparr>treeData := ?t1\<rparr>) = Inr s2" by blast
  from render_fields[OF s2] have pe: "persisted (treeData s2) = persisted ?t1" by simp
  have "nid (setName ?nm p) = nodeId"
    using findNodeById_nid(1)[OF assms(2)] by (simp add: setName_def)
  from findNodeById_update(1)[where f = "setName ?nm", OF assms(2) this]
  have f1: "findNodeById ?t1 nodeId = Some (setName ?nm p)" .
  have "map_option persisted (findNodeById (treeData s2) nodeId)
      = map_option persisted (findNodeById ?t1 nodeId)"
    using findNodeById_persisted(1)[of "treeData s2" nodeId] findNodeById_persisted(1)[of ?t1 nodeId] pe
    by simp
  with f1 obtain m where m: "findNodeById (treeData s2) nodeId = Some m"
    "persisted m = persisted (setName ?nm p)" by auto
  from m(2) have "name m = ?nm" by (cases m; cases p) (simp add: setName_def)
  with m(1) s2 assms show ?thesis
    by (auto simp: renameNode_def Let_def orDefault_def)
qed

lemma renameNode_fail:
  "\<not> editable (config s) \<or> findNodeById (treeData s) nodeId = None \<Longrightarrow>
     renameNode s nodeId newName = Inr (False, s)"
  by (auto simp: renameNode_def)

lemma scenario_find [simp]:
  "findNodeById (treeData scenarioState) ''a'' = Some (leafNode ''a'' ''A'')"
  "findNodeById (treeData scenarioState) ''zz'' = None"
  "findParentById (treeData scenarioState) ''a'' = Some scenarioTree"
  "findParentById (treeData scenarioState) ''zz'' = None"
  "editable (config scenarioState)"
  "nid (treeData scenarioState) = ''root''"
  by (simp_all add: scenarioState_def scenarioTree_def leafNode_def defaultConfig_def)

text \<open>
  Claim C6, amended. \<open>renameNode\<close> returns failure and leaves the whole state unchanged
  when no node has the id, and also when the widget is not editable. On an editable widget
  with a node of that id it returns success, and the node that \<open>findNodeById\<close> then finds
  under the id has the name \<open>newName\<close>, or the placeholder \<open>Unnamed\<close> when \<open>newName\<close> is the
  empty string. The name is not trimmed: a name of spaces is stored as it is.
\<close>

theorem rename_node:
  "(findNodeById (treeData s) nodeId = None \<longrightarrow> renameNode s nodeId newName = Inr (False, s)) \<and>
   (\<not> editable (config s) \<longrightarrow> renameNode s nodeId newName = Inr (False, s)) \<and>
   (editable (config s) \<and> findNodeById (treeData s) nodeId \<noteq> None \<longrightarrow>
      (\<exists>s' m. renameNode s nodeId newName = Inr (True, s') \<and>
         findNodeById (treeData s') nodeId = Some m \<and>
         name m = (if newName = [] then ''Unnamed'' else newName)))"
proof (intro conjI impI)
  assume "findNodeById (treeData s) nodeId = None"
  then show "renameNode s nodeId newName = Inr (False, s)" by (simp add: renameNode_fail)
next
  assume "\<not> editable (config s)"
  then show "renameNode s nodeId newName = Inr (False, s)" by (simp add: renameNode_fail)
next
  assume "editable (config s) \<and> findNodeById (treeData s) nodeId \<noteq> None"
  then obtain p where "editable (config s)" "findNodeById (treeData s) nodeId = Some p" by blast
  then show "\<exists>s' m. renameNode s nodeId newName = Inr (True, s') \<and>
         findNodeById (treeData s') nodeId = Some m \<and>
         name m = (if newName = [] then ''Unnamed'' else newName)"
    by (rule renameNode_ok)
qed

theorem rename_node_witness:
  "findNodeById (treeData scenarioState) ''zz'' = None \<and>
   renameNode scenarioState ''zz'' ''X'' = Inr (False, scenarioState) \<and>
   editable (config scenarioState) \<and>
   findNodeById (treeData scenarioState) ''a'' = Some (leafNode ''a'' ''A'') \<and>
   (\<exists>s' m. renameNode scenarioState ''a'' ''Alpha'' = Inr (True, s') \<and>
      findNodeById (treeData s') ''a'' = Some m \<and> name m = ''Alpha'') \<and>
   (\<exists>s' m. renameNode scenarioState ''a'' [] = Inr (True, s') \<and>
      findNodeById (treeData s') ''a'' = Some m \<and> name m = ''Unnamed'')"
  using rename_node[of scenarioState "''zz''" "''X''"]
    rename_node[of scenarioState "''a''" "''Alpha''"]
    rename_node[of scenarioState "''a''" "[]"]
  by simp

theorem rename_node_counterexample:
  "trim ''  '' = [] \<and> editable (config scenarioState) \<and>
   \<not> isl (renameNode scenarioState ''a'' ''  '') \<and>
   fst (projr (renameNode scenarioState ''a'' ''  '')) = True \<and>
   map_option name (findNodeById (treeData (snd (projr (renameNode scenarioState ''a'' ''  '')))) ''a'')
     = Some ''  '' \<and>
   findNodeById (treeData (scenarioState\<lparr>config := defaultConfig\<lparr>editable := False\<rparr>\<rparr>)) ''a''
     = Some (leafNode ''a'' ''A'') \<and>
   renameNode (scenarioState\<lparr>config := defaultConfig\<lparr>editable := False\<rparr>\<rparr>) ''a'' ''Alpha''
     = Inr (False, scenarioState\<lparr>config := defaultConfig\<lparr>editable := False\<rparr>\<rparr>)"
proof -
  have t: "trim ''  '' = []" by (simp add: trim_def isSpace_def)
  from renameNode_ok[of scenarioState "''a''" "leafNode ''a'' ''A''" "''  ''"]
  obtain s' m where "renameNode scenarioState ''a'' ''  '' = Inr (True, s')"
    "findNodeById (treeData s') ''a'' = Some m" "name m = ''  ''"
    by auto
  moreover have
    "findNodeById (treeData (scenarioState\<lparr>config := defaultConfig\<lparr>editable := False\<rparr>\<rparr>)) ''a''
       = Some (leafNode ''a'' ''A'')"
    using scenario_find(1) by simp
  moreover have
    "renameNode (scenarioState\<lparr>config := defaultConfig\<lparr>editable := False\<rparr>\<rparr>) ''a'' ''Alpha''
       = Inr (False, scenarioState\<lparr>config := defaultConfig\<lparr>editable := False\<rparr>\<rparr>)"
    by (intro renameNode_fail) simp
  ultimately show ?thesis using t by simp
qed

text \<open>
  Claim C7, amended. \<open>deleteNode\<close> with the id of the root returns failure and leaves the
  tree unchanged (the live tree and what \<open>getData\<close> returns), in every state. On an
  editable widget it does so through \<open>setStatus\<close> with the message
  \<open>Cannot delete root node\<close>, which a status element then shows, while a deletion that
  finds no parent for the id returns failure with the state unchanged and no message. On
  a widget that is not editable every deletion returns failure with the state unchanged.
\<close>

theorem delete_root_rejected:
  "(\<exists>s'. deleteNode s (nid (treeData s)) = Inr (False, s') \<and> treeData s' = treeData s \<and>
       getData s' = getData s) \<and>
   (editable (config s) \<longrightarrow>
      deleteNode s (nid (treeData s)) = Inr (False, setStatus s ''Cannot delete root node'')) \<and>
   (editable (config s) \<and> statusEl s \<noteq> None \<longrightarrow>
      (\<exists>s'. deleteNode s (nid (treeData s)) = Inr (False, s') \<and>
         statusEl s' = Some ''Cannot delete root node'')) \<and>
   (nodeId \<noteq> nid (treeData s) \<and> findParentById (treeData s) nodeId = None \<longrightarrow>
      deleteNode s nodeId = Inr (False, s)) \<and>
   (\<not> editable (config s) \<longrightarrow> deleteNode s nodeId = Inr (False, s))"
  by (auto simp: deleteNode_def getData_def setStatus_def split: option.splits)

theorem delete_root_rejected_witness:
  "editable (config scenarioState) \<and> statusEl scenarioState \<noteq> None \<and>
   nid (treeData scenarioState) = ''root'' \<and>
   deleteNode scenarioState ''root'' = Inr (False, setStatus scenarioState ''Cannot delete root node'') \<and>
   treeData (setStatus scenarioState ''Cannot delete root node'') = treeData scenarioState \<and>
   statusEl (setStatus scenarioState ''Cannot delete root node'') = Some ''Cannot delete root node'' \<and>
   ''zz'' \<noteq> nid (treeData scenarioState) \<and> findParentById (treeData scenarioState) ''zz'' = None \<and>
   deleteNode scenarioState ''zz'' = Inr (False, scenarioState)"
proof -
  have st: "statusEl scenarioState \<noteq> None" by (simp add: scenarioState_def)
  from delete_root_rejected[of scenarioState "''zz''"] st show ?thesis
    by (auto simp: setStatus_def)
qed

theorem delete_root_not_editable_counterexample:
  "nid (treeData (scenarioState\<lparr>config := defaultConfig\<lparr>editable := False\<rparr>\<rparr>)) = ''root'' \<and>
   findNodeById (treeData (scenarioState\<lparr>config := defaultConfig\<lparr>editable := False\<rparr>\<rparr>)) ''zz'' = None \<and>
   deleteNode (scenarioState\<lparr>config := defaultConfig\<lparr>editable := False\<rparr>\<rparr>) ''root''
     = Inr (False, scenarioState\<lparr>config := defaultConfig\<lparr>editable := False\<rparr>\<rparr>) \<and>
   deleteNode (scenarioState\<lparr>config := defaultConfig\<lparr>editable := False\<rparr>\<rparr>) ''zz''
     = deleteNode (scenarioState\<lparr>config := defaultConfig\<lparr>editable := False\<rparr>\<rparr>) ''root''"
  by (simp add: deleteNode_def scenarioState_def scenarioTree_def leafNode_def)

lemma scenario_labels [simp]:
  "labels (treeData scenarioState) = [(''root'', ''R''), (''a'', ''A''), (''b'', ''B''), (''b1'', ''B1'')]"
  "findNodeById (treeData scenarioState) ''b'' \<noteq> None"
  "nodeIdCounter scenarioState = 1700000000000"
  by (simp_all add: scenarioState_def scenarioTree_def leafNode_def)

lemma generateId_scenario [simp]:
  "numToString 1700000000001 = ''1700000000001''"
  by (simp add: numToString.simps char_of_def bit_Suc_0_iff)



section \<open>Uniqueness of ids\<close>

lemma idNumber_generateId: "idNumber (fst (generateId s)) = Some (nodeIdCounter s + 1)"
  using idNumber_generated[of "nodeIdCounter s + 1"] by (simp add: generateId_def)

lemma generated_id_fresh:
  assumes "idsFresh s"
  shows "fst (generateId s) \<notin> set (ids (treeData s))"
proof
  assume "fst (generateId s) \<in> set (ids (treeData s))"
  with assms have
    "(case idNumber (fst (generateId s)) of None \<Rightarrow> True | Some k \<Rightarrow> k \<le> nodeIdCounter s)"
    by (auto simp: idsFresh_def list_all_iff)
  then show False by (simp add: idNumber_generateId)
qed

lemma idsFresh_add:
  assumes fresh: "idsFresh s"
    and l: "mset (labels (treeData s')) = add_mset (fst (generateId s), nm) (mset (labels (treeData s)))"
    and c: "nodeIdCounter s' = nodeIdCounter s + 1"
  shows "idsFresh s'"
proof -
  let ?new = "fst (generateId s)"
  have "mset (ids (treeData s')) = image_mset fst (mset (labels (treeData s')))"
    by (simp add: ids_labels)
  also have "\<dots> = add_mset ?new (mset (ids (treeData s)))"
    by (simp add: l ids_labels)
  finally have m: "mset (ids (treeData s')) = mset (?new # ids (treeData s))" by simp
  from fresh have d: "distinct (ids (treeData s))" by (simp add: idsFresh_def)
  have "distinct (?new # ids (treeData s))"
    using d generated_id_fresh[OF fresh] by simp
  with mset_eq_imp_distinct_iff[OF m] have d': "distinct (ids (treeData s'))" by simp
  from mset_eq_setD[OF m] have st: "set (ids (treeData s')) = insert ?new (set (ids (treeData s)))"
    by simp
  have "(case idNumber i of None \<Rightarrow> True | Some k \<Rightarrow> k \<le> nodeIdCounter s')"
    if i: "i \<in> set (ids (treeData s'))" for i
  proof (cases "i = ?new")
    case True
    then show ?thesis by (simp add: idNumber_generateId c)
  next
    case False
    with i st have "i \<in> set (ids (treeData s))" by simp
    with fresh have "(case idNumber i of None \<Rightarrow> True | Some k \<Rightarrow> k \<le> nodeIdCounter s)"
      by (auto simp: idsFresh_def list_all_iff)
    then show ?thesis by (simp add: c split: option.splits)
  qed
  with d' show ?thesis by (simp add: idsFresh_def list_all_iff)
qed

lemma addChild_cases:
  "addChild s parentId nm = Inr (False, s) \<or> (\<exists>s'. addChild s parentId nm = Inr (True, s'))"
proof (cases "editable (config s) \<and> findNodeById (treeData s) parentId \<noteq> None")
  case True
  then show ?thesis using addChild_ok[of s parentId _ nm] by blast
next
  case False
  then show ?thesis using addChild_fail[of s parentId nm] by blast
qed

lemma addSibling_cases:
  "addSibling s nodeId nm = Inr (False, s) \<or> (\<exists>s'. addSibling s nodeId nm = Inr (True, s'))"
proof (cases "editable (config s) \<and> findParentById (treeData s) nodeId \<noteq> None")
  case True
  then show ?thesis using addSibling_ok[of s nodeId _ nm] by blast
next
  case False
  then show ?thesis using addSibling_fail[of s nodeId nm] by blast
qed

lemma applyEdit_idsFresh:
  assumes "idsFresh s"
  shows "\<exists>ok s'. applyEdit s ed = Inr (ok, s') \<and> idsFresh s'"
proof (cases ed)
  case (AddChild parentId nm)
  from addChild_cases[of s parentId nm] show ?thesis
  proof
    assume "addChild s parentId nm = Inr (False, s)"
    with assms AddChild show ?thesis by auto
  next
    assume "\<exists>s'. addChild s parentId nm = Inr (True, s')"
    then obtain s' where s': "addChild s parentId nm = Inr (True, s')" by blast
    from addChild_labels[OF s'] have "idsFresh s'" by (intro idsFresh_add[OF assms]) auto
    with s' AddChild show ?thesis by auto
  qed
next
  case (AddSibling nodeId nm)
  from addSibling_cases[of s nodeId nm] show ?thesis
  proof
    assume "addSibling s nodeId nm = Inr (False, s)"
    with assms AddSibling show ?thesis by auto
  next
    assume "\<exists>s'. addSibling s nodeId nm = Inr (True, s')"
    then obtain s' where s': "addSibling s nodeId nm = Inr (True, s')" by blast
    from addSibling_labels[OF s'] have "idsFresh s'" by (intro idsFresh_add[OF assms]) auto
    with s' AddSibling show ?thesis by auto
  qed
qed

lemma runEdits_idsFresh:
  "idsFresh s \<Longrightarrow> \<exists>s'. runEdits s eds = Inr s' \<and> idsFresh s'"
proof (induction eds arbitrary: s)
  case Nil
  then show ?case by simp
next
  case (Cons ed eds)
  from applyEdit_idsFresh[OF Cons.prems, of ed] obtain ok s1 where
    s1: "applyEdit s ed = Inr (ok, s1)" "idsFresh s1" by blast
  from Cons.IH[OF s1(2)] s1(1) show ?case by simp
qed

text \<open>
  Claim C8, amended. In a state whose tree has pairwise different ids, none of them of
  the form \<open>node_n\<close> with a number \<open>n\<close> above the counter of the instance (\<open>idsFresh\<close>):
  the id that \<open>generateId\<close> produces next is not in the tree; a successful \<open>addChild\<close> or
  \<open>addSibling\<close> adds this id to the ids of the tree and changes no other; every sequence of
  \<open>addChild\<close> and \<open>addSibling\<close> calls returns a state, and in it the ids of the tree are
  pairwise different again, with none above the counter.
\<close>

theorem generated_ids_unique:
  assumes "idsFresh s"
  shows "fst (generateId s) \<notin> set (ids (treeData s)) \<and>
         (addChild s parentId nm = Inr (True, s1) \<longrightarrow>
            mset (ids (treeData s1)) = add_mset (fst (generateId s)) (mset (ids (treeData s)))) \<and>
         (addSibling s nodeId nm = Inr (True, s2) \<longrightarrow>
            mset (ids (treeData s2)) = add_mset (fst (generateId s)) (mset (ids (treeData s)))) \<and>
         (\<exists>s'. runEdits s eds = Inr s' \<and> distinct (ids (treeData s')) \<and> idsFresh s')"
proof -
  from runEdits_idsFresh[OF assms, of eds] obtain s' where
    "runEdits s eds = Inr s'" "idsFresh s'" by blast
  moreover from this(2) have "distinct (ids (treeData s'))" by (simp add: idsFresh_def)
  ultimately have R: "\<exists>s'. runEdits s eds = Inr s' \<and> distinct (ids (treeData s')) \<and> idsFresh s'"
    by blast
  have A: "addChild s parentId nm = Inr (True, s1) \<longrightarrow>
            mset (ids (treeData s1)) = add_mset (fst (generateId s)) (mset (ids (treeData s)))"
    using addChild_labels[of s parentId nm s1] by (simp add: ids_labels)
  have B: "addSibling s nodeId nm = Inr (True, s2) \<longrightarrow>
            mset (ids (treeData s2)) = add_mset (fst (generateId s)) (mset (ids (treeData s)))"
    using addSibling_labels[of s nodeId nm s2] by (simp add: ids_labels)
  from generated_id_fresh[OF assms] A B R show ?thesis by (intro conjI)
qed

lemma scenario_idsFresh: "idsFresh scenarioState"
  by (simp add: idsFresh_def ids_labels idNumber_def)

theorem generated_ids_unique_witness:
  "idsFresh scenarioState \<and>
   fst (generateId scenarioState) = ''node_1700000000001'' \<and>
   ids (treeData scenarioState) = [''root'', ''a'', ''b'', ''b1''] \<and>
   ''node_1700000000001'' \<notin> set (ids (treeData scenarioState)) \<and>
   (\<exists>s1. addChild scenarioState ''a'' None = Inr (True, s1) \<and>
      mset (ids (treeData s1)) = mset [''node_1700000000001'', ''root'', ''a'', ''b'', ''b1'']) \<and>
   (\<exists>s'. runEdits scenarioState [AddChild ''a'' None, AddSibling ''a'' (Some ''C''), AddChild ''zz'' None]
            = Inr s' \<and>
      distinct (ids (treeData s')))"
proof -
  let ?eds = "[AddChild ''a'' None, AddSibling ''a'' (Some ''C''), AddChild ''zz'' None]"
  have g: "fst (generateId scenarioState) = ''node_1700000000001''"
    by (simp add: generateId_def)
  have i: "ids (treeData scenarioState) = [''root'', ''a'', ''b'', ''b1'']"
    by (simp add: ids_labels)
  obtain s1 where s1: "addChild scenarioState ''a'' None = Inr (True, s1)"
    using addChild_ok[of scenarioState "''a''" _ None] by fastforce
  note th = generated_ids_unique[OF scenario_idsFresh, of "''a''" None s1 "''a''" s1 ?eds]
  from th have f: "fst (generateId scenarioState) \<notin> set (ids (treeData scenarioState))"
    by (rule conjunct1)
  from th s1 have
    m: "mset (ids (treeData s1)) = add_mset (fst (generateId scenarioState)) (mset (ids (treeData scenarioState)))"
    by blast
  from th obtain s' where r: "runEdits scenarioState ?eds = Inr s'" "distinct (ids (treeData s'))"
    by blast
  have m': "mset (ids (treeData s1)) = mset [''node_1700000000001'', ''root'', ''a'', ''b'', ''b1'']"
    using m unfolding g i by simp
  have f': "''node_1700000000001'' \<notin> set (ids (treeData scenarioState))"
    using f unfolding g .
  from s1 m' have E1: "\<exists>s1. addChild scenarioState ''a'' None = Inr (True, s1) \<and>
      mset (ids (treeData s1)) = mset [''node_1700000000001'', ''root'', ''a'', ''b'', ''b1'']"
    by blast
  from r have E2: "\<exists>s'. runEdits scenarioState ?eds = Inr s' \<and> distinct (ids (treeData s'))"
    by blast
  from scenario_idsFresh g i f' E1 E2 show ?thesis by (intro conjI)
qed

theorem generated_id_clash_counterexample:
  "distinct (ids (treeData clashState)) \<and>
   \<not> isl (addChild clashState ''root'' (Some ''B'')) \<and>
   fst (projr (addChild clashState ''root'' (Some ''B''))) = True \<and>
   fst (generateId clashState) \<in> set (ids (treeData clashState)) \<and>
   \<not> distinct (ids (treeData (snd (projr (addChild clashState ''root'' (Some ''B''))))))"
proof -
  have l: "labels (treeData clashState) = [(''root'', ''R''), (''node_1700000000001'', ''A'')]"
    by (simp add: clashState_def leafNode_def)
  have g: "fst (generateId clashState) = ''node_1700000000001''"
    by (simp add: generateId_def clashState_def scenarioState_def)
  have "editable (config clashState)"
    "findNodeById (treeData clashState) ''root'' = Some (treeData clashState)"
    by (simp_all add: clashState_def scenarioState_def defaultConfig_def)
  from addChild_ok[OF this, of "Some ''B''"] obtain s' where
    s': "addChild clashState ''root'' (Some ''B'') = Inr (True, s')" by blast
  from addChild_labels[OF s'] have
    "mset (ids (treeData s')) = mset (''node_1700000000001'' # ids (treeData clashState))"
    by (simp add: ids_labels g)
  from mset_eq_imp_distinct_iff[OF this] have "\<not> distinct (ids (treeData s'))"
    by (simp add: ids_labels l)
  with s' g l show ?thesis by (simp add: ids_labels)
qed

section \<open>The data that getData returns\<close>

lemma countLeaves_annotates:
  "\<forall>m \<in> set (nodes (fst (countLeaves n))). u_leafCount (tr m) \<noteq> None \<and> u_isLeaf (tr m) \<noteq> None"
  "\<forall>c \<in> set (fst (countLeavesLoop cs acc)). \<forall>m \<in> set (nodes c).
      u_leafCount (tr m) \<noteq> None \<and> u_isLeaf (tr m) \<noteq> None"
  by (induction n and cs acc rule: countLeaves_countLeavesLoop.induct)
     (auto split: option.splits prod.splits)

lemma layout_laidOut:
  "layout cfg n s e d = Inr n' \<Longrightarrow>
     \<forall>m \<in> set (nodes n). u_leafCount (tr m) \<noteq> None \<and> u_isLeaf (tr m) \<noteq> None \<Longrightarrow>
     \<forall>m \<in> set (nodes n'). laidOut m"
  "layoutLoop cfg cs s e pl a d = Inr cs' \<Longrightarrow>
     \<forall>c \<in> set cs. \<forall>m \<in> set (nodes c). u_leafCount (tr m) \<noteq> None \<and> u_isLeaf (tr m) \<noteq> None \<Longrightarrow>
     \<forall>c' \<in> set cs'. \<forall>m \<in> set (nodes c'). laidOut m"
proof (induction cfg n s e d and cfg cs s e pl a d arbitrary: n' and cs' rule: layout_layoutLoop.induct)
  case (1 cfg i nm ch t startAngle endAngle depth)
  let ?t' = "t\<lparr>u_x := Some (width cfg / 2 + real depth * radiusStep cfg * cos ((startAngle + endAngle) / 2)),
               u_y := Some (height cfg / 2 + real depth * radiusStep cfg * sin ((startAngle + endAngle) / 2)),
               u_angle := Some ((startAngle + endAngle) / 2), u_depth := Some depth\<rparr>"
  from 1(3) have self: "laidOut (Node i nm ch' ?t')" for ch'
    by (simp add: laidOut_def)
  show ?case
  proof (cases ch)
    case None
    with 1(2) have "n' = Node i nm None ?t'" by (simp add: Let_def)
    with self show ?thesis by simp
  next
    case (Some cs)
    show ?thesis
    proof (cases "cs = []")
      case True
      with 1(2) Some have "n' = Node i nm (Some []) ?t'" by (simp add: Let_def)
      with self show ?thesis by simp
    next
      case False
      with 1(2) Some obtain cs' where
        l: "layoutLoop cfg cs startAngle endAngle (u_leafCount t) startAngle (depth + 1) = Inr cs'"
        and n': "n' = Node i nm (Some cs') ?t'"
        by (auto simp: Let_def split: sum.splits)
      from 1(3) Some have
        "\<forall>c \<in> set cs. \<forall>m \<in> set (nodes c). u_leafCount (tr m) \<noteq> None \<and> u_isLeaf (tr m) \<noteq> None"
        by simp
      from 1(1)[OF refl refl refl refl refl Some False l this] self n' show ?thesis by auto
    qed
  qed
next
  case (2 cfg startAngle endAngle pl angle d)
  then show ?case by simp
next
  case (3 cfg c cs startAngle endAngle pl angle d)
  from 3(3) obtain q c' cs'' where
    q: "leafRatio (u_leafCount (tr c)) pl = Inr q"
    and c': "layout cfg c angle (angle + (endAngle - startAngle) * q) d = Inr c'"
    and l: "layoutLoop cfg cs startAngle endAngle pl (angle + (endAngle - startAngle) * q) d = Inr cs''"
    and eq: "cs' = c' # cs''"
    by (auto simp: Let_def split: sum.splits)
  from 3(4) have a1: "\<forall>m \<in> set (nodes c). u_leafCount (tr m) \<noteq> None \<and> u_isLeaf (tr m) \<noteq> None"
    and a2: "\<forall>c \<in> set cs. \<forall>m \<in> set (nodes c). u_leafCount (tr m) \<noteq> None \<and> u_isLeaf (tr m) \<noteq> None"
    by simp_all
  from 3(1)[OF q refl c' a1] 3(2)[OF q refl c' l a2] eq show ?case by simp
qed

lemma layoutRoot_laidOut:
  assumes "layoutRoot cfg n = Inr r'"
    and "\<forall>m \<in> set (nodes n). u_leafCount (tr m) \<noteq> None \<and> u_isLeaf (tr m) \<noteq> None"
  shows "(\<forall>m \<in> set (nodes r'). laidOut m) \<and> u_isRoot (tr r') = Some True"
proof (cases n)
  case (Node i nm ch t)
  let ?t' = "t\<lparr>u_x := Some (width cfg / 2), u_y := Some (height cfg / 2), u_angle := Some 0,
                 u_depth := Some 0, u_isRoot := Some True\<rparr>"
  from assms(2) Node have self: "laidOut (Node i nm ch' ?t')" for ch'
    by (simp add: laidOut_def)
  show ?thesis
  proof (cases ch)
    case None
    with assms(1) Node have "r' = Node i nm None ?t'" by (simp add: layoutRoot_def Let_def)
    with self show ?thesis by simp
  next
    case (Some cs)
    with assms(1) Node obtain cs' where
      l: "layoutLoop cfg cs rootStart rootEnd (u_leafCount t) rootStart 1 = Inr cs'"
      and r': "r' = Node i nm (Some cs') ?t'"
      by (auto simp: layoutRoot_def Let_def split: sum.splits)
    from assms(2) Node Some have
      "\<forall>c \<in> set cs. \<forall>m \<in> set (nodes c). u_leafCount (tr m) \<noteq> None \<and> u_isLeaf (tr m) \<noteq> None"
      by simp
    from layout_laidOut(2)[OF l this] self r' show ?thesis by auto
  qed
qed

lemma render_laidOut:
  assumes "render s = Inr s'"
  shows "(\<forall>m \<in> set (nodes (treeData s')). laidOut m) \<and> u_isRoot (tr (treeData s')) = Some True"
proof -
  from assms obtain t' where
    t': "layoutRoot (config s) (fst (countLeaves (treeData s))) = Inr t'" and s': "s' = s\<lparr>treeData := t'\<rparr>"
    by (auto simp: render_def split: sum.splits)
  from layoutRoot_laidOut[OF t' countLeaves_annotates(1)] s' show ?thesis by simp
qed

text \<open>
  Claim C5, amended. \<open>setData\<close> succeeds, and what \<open>getData\<close> returns afterwards is a copy
  of the live tree as \<open>render\<close> left it: its persisted part (\<open>id\<close>, \<open>name\<close>, \<open>children\<close>) is
  the persisted part of the data that was set, and every node of it carries the layout
  fields \<open>_leafCount\<close>, \<open>_isLeaf\<close>, \<open>_depth\<close>, \<open>_angle\<close>, \<open>_x\<close> and \<open>_y\<close>, the root also
  \<open>_isRoot\<close>. The same holds for \<open>getData\<close> after any \<open>render\<close>.
\<close>

theorem getData_keeps_layout_fields:
  "(\<exists>s'. setData s dat = Inr s' \<and> getData s' = treeData s' \<and>
      persisted (getData s') = persisted dat \<and>
      (\<forall>m \<in> set (nodes (getData s')). laidOut m) \<and> u_isRoot (tr (getData s')) = Some True) \<and>
   (\<exists>s'. render s = Inr s' \<and> getData s' = treeData s' \<and>
      persisted (getData s') = persisted (treeData s) \<and>
      (\<forall>m \<in> set (nodes (getData s')). laidOut m) \<and> u_isRoot (tr (getData s')) = Some True)"
proof -
  have R: "\<exists>s'. render s0 = Inr s' \<and> getData s' = treeData s' \<and>
      persisted (getData s') = persisted (treeData s0) \<and>
      (\<forall>m \<in> set (nodes (getData s')). laidOut m) \<and> u_isRoot (tr (getData s')) = Some True" for s0
  proof -
    from render_ok[of s0] obtain s' where s': "render s0 = Inr s'" by blast
    from render_fields[OF s'] render_laidOut[OF s'] s' show ?thesis
      by (auto simp: getData_def jsonClone_id)
  qed
  from R[of "s\<lparr>treeData := jsonClone dat\<rparr>"] obtain s1 where
    s1: "render (s\<lparr>treeData := jsonClone dat\<rparr>) = Inr s1" "getData s1 = treeData s1"
      "persisted (getData s1) = persisted dat"
      "\<forall>m \<in> set (nodes (getData s1)). laidOut m" "u_isRoot (tr (getData s1)) = Some True"
    by (auto simp: jsonClone_id)
  then have "setData s dat = Inr (setStatus s1 ''Data loaded successfully'')"
    by (simp add: setData_def)
  moreover have "getData (setStatus s1 ''Data loaded successfully'') = getData s1"
    by (simp add: getData_def)
  ultimately have "\<exists>s'. setData s dat = Inr s' \<and> getData s' = treeData s' \<and>
      persisted (getData s') = persisted dat \<and>
      (\<forall>m \<in> set (nodes (getData s')). laidOut m) \<and> u_isRoot (tr (getData s')) = Some True"
    using s1 by (auto simp: getData_def jsonClone_id)
  then show ?thesis using R[of s] by (rule conjI)
qed

theorem getData_keeps_layout_fields_witness:
  "\<exists>s'. setData scenarioState scenarioTree = Inr s' \<and>
     persisted (getData s') = scenarioTree \<and>
     list_all laidOut (nodes (getData s')) \<and>
     u_isRoot (tr (getData s')) = Some True"
proof -
  have "persisted scenarioTree = scenarioTree"
    by (simp add: scenarioTree_def leafNode_def)
  with getData_keeps_layout_fields[of scenarioState scenarioTree] show ?thesis
    by (auto simp: list_all_iff)
qed

theorem getData_transient_counterexample:
  "\<not> isl (setData scenarioState scenarioTree) \<and>
   u_leafCount (tr (getData (projr (setData scenarioState scenarioTree)))) = Some 2 \<and>
   u_x (tr (getData (projr (setData scenarioState scenarioTree)))) = Some 400 \<and>
   getData (projr (setData scenarioState scenarioTree))
     \<noteq> persisted (getData (projr (setData scenarioState scenarioTree)))"
proof -
  have cl: "fst (countLeaves scenarioTree) = scenarioAnnotated"
    by (simp add: scenarioTree_def scenarioAnnotated_def leafNode_def annotatedLeaf_def noTransient_def)
  have ok: "leafOK scenarioAnnotated" using countLeaves_leafOK(1)[of scenarioTree] cl by simp
  from layoutRoot_total[OF ok, of defaultConfig] obtain t' where
    t': "layoutRoot defaultConfig scenarioAnnotated = Inr t'" by blast
  then have f: "u_leafCount (tr t') = Some 2" "u_x (tr t') = Some 400"
    by (auto simp: layoutRoot_def Let_def scenarioAnnotated_def noTransient_def defaultConfig_def
        split: sum.splits)
  have "setData scenarioState scenarioTree
      = Inr (setStatus (scenarioState\<lparr>treeData := t'\<rparr>) ''Data loaded successfully'')"
    using t' cl by (simp add: setData_def render_def jsonClone_id scenarioState_def)
  moreover have "t' \<noteq> persisted t'"
    using f(1) by (cases t') (auto simp: noTransient_def)
  ultimately show ?thesis using f by (simp add: getData_def jsonClone_id)
qed

end
